theory Spec2Isabelle
  imports Complex_Main "HOL-Library.Word"
begin

section \<open>Binary floating point\<close>

text \<open>
  The animation variables of \<^verbatim>\<open>main.cpp\<close> are C++ \<^verbatim>\<open>float\<close>s (IEEE binary32) and the
  colour computation passes through \<^verbatim>\<open>double\<close> (binary64).  A finite floating-point
  value is modelled by the rational number it denotes; an arithmetic operation computes
  the exact rational result and rounds it to the nearest representable value, ties to the
  even significand.  Overflow to infinity is not modelled: every value of this program
  stays below \<open>2\<^sup>1\<^sup>0\<close> in magnitude.
\<close>

definition pow2 :: "int \<Rightarrow> rat" where
  "pow2 e = (if 0 \<le> e then 2 ^ nat e else 1 / 2 ^ nat (- e))"

text \<open>The binary exponent of a positive rational: halve or double until it lies in \<open>[1, 2)\<close>.\<close>

function ilog2 :: "rat \<Rightarrow> int" where
  "ilog2 x = (if x \<le> 0 then 0
              else if 2 \<le> x then ilog2 (x / 2) + 1
              else if x < 1 then ilog2 (x * 2) - 1
              else 0)"
  by pat_completeness auto
termination
proof (relation "measure (\<lambda>x. if 1 \<le> x then nat \<lfloor>x\<rfloor> else nat \<lfloor>1 / x\<rfloor> + 1)", goal_cases)
  case 1
  show ?case by simp
next
  case (2 x)
  then have "\<lfloor>x / 2\<rfloor> < \<lfloor>x\<rfloor>" by (simp add: floor_less_iff) linarith
  with 2 show ?case by auto
next
  case (3 x)
  then have x: "0 < x" "x < 1" by auto
  show ?case
  proof (cases "1 \<le> x * 2")
    case True
    have "1 \<le> 1 / x" using x by (simp add: field_simps)
    then have "1 \<le> \<lfloor>1 / x\<rfloor>" by (simp add: le_floor_iff)
    moreover have "\<lfloor>x * 2\<rfloor> = 1" using True x by (simp add: floor_eq_iff)
    ultimately show ?thesis using True x by auto
  next
    case False
    then have "2 \<le> 1 / x" using x by (simp add: field_simps)
    then have "\<lfloor>(1 / x) / 2\<rfloor> < \<lfloor>1 / x\<rfloor>" by (simp add: floor_less_iff) linarith
    then show ?thesis using False x by (auto simp: field_simps)
  qed
qed

declare ilog2.simps [simp del]

text \<open>Rounding a rational to the nearest integer, a tie going to the even neighbour.\<close>

definition rne :: "rat \<Rightarrow> int" where
  "rne q = (let f = \<lfloor>q\<rfloor>; r = q - of_int f
            in if r < 1 / 2 then f
               else if 1 / 2 < r then f + 1
               else if even f then f else f + 1)"

text \<open>
  Rounding to a binary format with \<open>p\<close> significand bits and least normal exponent
  \<open>emin\<close>: the unit in the last place is \<open>2\<^sup>e\<close> with \<open>e = max \<lfloor>log\<^sub>2 |x|\<rfloor> emin - (p - 1)\<close>.
\<close>

definition fround :: "nat \<Rightarrow> int \<Rightarrow> rat \<Rightarrow> rat" where
  "fround p emin x =
     (if x = 0 then 0
      else let e = max (ilog2 \<bar>x\<bar>) emin - (int p - 1)
           in of_int (rne (x / pow2 e)) * pow2 e)"

definition round32 :: "rat \<Rightarrow> rat" where
  "round32 = fround 24 (- 126)"

definition round64 :: "rat \<Rightarrow> rat" where
  "round64 = fround 53 (- 1022)"

definition fadd32 :: "rat \<Rightarrow> rat \<Rightarrow> rat" where
  "fadd32 a b = round32 (a + b)"

definition fsub32 :: "rat \<Rightarrow> rat \<Rightarrow> rat" where
  "fsub32 a b = round32 (a - b)"

definition fadd64 :: "rat \<Rightarrow> rat \<Rightarrow> rat" where
  "fadd64 a b = round64 (a + b)"

definition fsub64 :: "rat \<Rightarrow> rat \<Rightarrow> rat" where
  "fsub64 a b = round64 (a - b)"

text \<open>The macro \<^verbatim>\<open>M_PI\<close> of the C library: the double nearest to its decimal text.\<close>

definition M_PI :: rat where
  "M_PI = round64 (314159265358979323846 / 100000000000000000000)"

text \<open>
  The two overloads of \<^verbatim>\<open>std::sin\<close> that the program calls belong to the C++ library,
  not to the repository; they are parameters of the model.
\<close>

record libm =
  std_sin :: "rat \<Rightarrow> rat"
  std_sinf :: "rat \<Rightarrow> rat"

section \<open>The external collaborators\<close>

type_synonym GLuint = "32 word"

datatype GLtarget = GL_ARRAY_BUFFER | GL_ELEMENT_ARRAY_BUFFER

datatype GLstage = GL_VERTEX_SHADER | GL_FRAGMENT_SHADER

datatype GLmode = GL_TRIANGLES

text \<open>The numeric value of the stage enumerators, which \<^verbatim>\<open>addShader\<close> prints.\<close>

fun GLenum_value :: "GLstage \<Rightarrow> nat" where
  "GLenum_value GL_VERTEX_SHADER = 35633"
| "GLenum_value GL_FRAGMENT_SHADER = 35632"

datatype buffer_data = Indices "GLuint list" | Floats "rat list"

text \<open>One \<^verbatim>\<open>glDrawElements\<close> call: the primitive mode, the index count, and the indices
  read from the buffer bound to the element-array target (\<open>None\<close> when it holds no indices).\<close>

datatype draw = DrawElements GLmode nat "GLuint list option"

text \<open>What is written to \<^verbatim>\<open>std::cout\<close>, one item per \<^verbatim>\<open><<\<close>.\<close>

datatype out_item = OStr string | ONum nat | OFloat rat

text \<open>
  The answers of GLFW, GLEW and the OpenGL driver that the program branches on.
  \<open>glfwWindowShouldClose d k\<close> is the answer to the \<open>k\<close>-th test of the main loop.
\<close>

record driver =
  glfwInit_ok :: bool
  glfwCreateWindow_ok :: bool
  glewInit_result :: nat
  glfwWindowShouldClose :: "nat \<Rightarrow> bool"
  glCreateProgram_result :: GLuint
  glCreateShader_result :: "GLstage \<Rightarrow> GLuint"
  compile_status :: "GLstage \<Rightarrow> string \<Rightarrow> bool"
  shader_info_log :: "GLstage \<Rightarrow> string \<Rightarrow> string"
  link_status :: bool
  link_info_log :: string
  validate_status :: bool
  validate_info_log :: string
  uniform_location :: "string \<Rightarrow> int"

definition GLEW_OK :: nat where
  "GLEW_OK = 0"

section \<open>Program state\<close>

text \<open>
  The globals of \<^verbatim>\<open>main.cpp\<close> (lines 21--32) and the static local \<^verbatim>\<open>i\<close> of the main
  loop, the output stream, and the part of the OpenGL context the program acts on.
\<close>

record state =
  vao :: GLuint
  vbo :: GLuint
  shader :: GLuint
  ibo :: GLuint
  uniformModel :: GLuint
  uniformProjection :: GLuint
  direction :: bool
  triOffset :: rat
  triMaxOffset :: rat
  triTranslationIncrement :: rat
  currentAngle :: rat
  phase_i :: rat
  cout :: "out_item list"
  vertex_array_names :: nat
  buffer_names :: nat
  vertex_array_binding :: GLuint
  array_buffer_binding :: GLuint
  element_array_buffer_binding :: GLuint
  buffer_store :: "GLuint \<Rightarrow> buffer_data option"
  vertex_attrib0 :: "(nat \<times> GLuint) option"
  vertex_attrib0_enabled :: bool
  attached :: "GLuint \<Rightarrow> GLuint list"
  current_program :: GLuint
  clear_color :: "rat \<times> rat \<times> rat \<times> rat"
  uniform_uploads :: "(GLuint \<times> int) list"
  draws :: "draw list"

definition init_state :: state where
  "init_state =
     \<lparr> vao = 0, vbo = 0, shader = 0, ibo = 0, uniformModel = 0, uniformProjection = 0,
       direction = True, triOffset = 0, triMaxOffset = 1,
       triTranslationIncrement = round32 (15 / 1000),
       currentAngle = 0, phase_i = 0, cout = [],
       vertex_array_names = 0, buffer_names = 0,
       vertex_array_binding = 0, array_buffer_binding = 0, element_array_buffer_binding = 0,
       buffer_store = (\<lambda>_. None), vertex_attrib0 = None, vertex_attrib0_enabled = False,
       attached = (\<lambda>_. []), current_program = 0, clear_color = (0, 0, 0, 0),
       uniform_uploads = [], draws = [] \<rparr>"

subsection \<open>OpenGL calls\<close>

definition glGenVertexArrays :: "state \<Rightarrow> GLuint \<times> state" where
  "glGenVertexArrays s =
     (of_nat (Suc (vertex_array_names s)), s\<lparr>vertex_array_names := Suc (vertex_array_names s)\<rparr>)"

definition glGenBuffers :: "state \<Rightarrow> GLuint \<times> state" where
  "glGenBuffers s = (of_nat (Suc (buffer_names s)), s\<lparr>buffer_names := Suc (buffer_names s)\<rparr>)"

definition glBindVertexArray :: "GLuint \<Rightarrow> state \<Rightarrow> state" where
  "glBindVertexArray n s = s\<lparr>vertex_array_binding := n\<rparr>"

fun glBindBuffer :: "GLtarget \<Rightarrow> GLuint \<Rightarrow> state \<Rightarrow> state" where
  "glBindBuffer GL_ARRAY_BUFFER n s = s\<lparr>array_buffer_binding := n\<rparr>"
| "glBindBuffer GL_ELEMENT_ARRAY_BUFFER n s = s\<lparr>element_array_buffer_binding := n\<rparr>"

fun bound_buffer :: "GLtarget \<Rightarrow> state \<Rightarrow> GLuint" where
  "bound_buffer GL_ARRAY_BUFFER s = array_buffer_binding s"
| "bound_buffer GL_ELEMENT_ARRAY_BUFFER s = element_array_buffer_binding s"

text \<open>Storing data needs a buffer bound to the target; with none the call is an error
  that changes nothing.\<close>

definition glBufferData :: "GLtarget \<Rightarrow> buffer_data \<Rightarrow> state \<Rightarrow> state" where
  "glBufferData t dat s =
     (if bound_buffer t s = 0 then s
      else s\<lparr>buffer_store := (buffer_store s)(bound_buffer t s := Some dat)\<rparr>)"

definition glVertexAttribPointer :: "nat \<Rightarrow> nat \<Rightarrow> state \<Rightarrow> state" where
  "glVertexAttribPointer index sz s =
     (if index = 0 then s\<lparr>vertex_attrib0 := Some (sz, array_buffer_binding s)\<rparr> else s)"

definition glEnableVertexAttribArray :: "nat \<Rightarrow> state \<Rightarrow> state" where
  "glEnableVertexAttribArray index s =
     (if index = 0 then s\<lparr>vertex_attrib0_enabled := True\<rparr> else s)"

definition glAttachShader :: "GLuint \<Rightarrow> GLuint \<Rightarrow> state \<Rightarrow> state" where
  "glAttachShader program sh s = s\<lparr>attached := (attached s)(program := attached s program @ [sh])\<rparr>"

text \<open>\<^verbatim>\<open>glGetShaderInfoLog\<close> and \<^verbatim>\<open>glGetProgramInfoLog\<close> copy at most \<open>bufSize - 1\<close>
  characters and a terminating zero; printing the buffer stops at the first zero.\<close>

definition info_log_text :: "nat \<Rightarrow> string \<Rightarrow> string" where
  "info_log_text bufSize msg = takeWhile (\<lambda>c. c \<noteq> CHR 0x00) (take (bufSize - 1) msg)"

definition glUseProgram :: "GLuint \<Rightarrow> state \<Rightarrow> state" where
  "glUseProgram p s = s\<lparr>current_program := p\<rparr>"

definition glClearColor :: "rat \<Rightarrow> rat \<Rightarrow> rat \<Rightarrow> rat \<Rightarrow> state \<Rightarrow> state" where
  "glClearColor r g b a s = s\<lparr>clear_color := (r, g, b, a)\<rparr>"

text \<open>An upload to location \<open>-1\<close> is silently ignored; any other upload is recorded with
  the program in use.  The matrix itself is not modelled.\<close>

definition glUniformMatrix4fv :: "int \<Rightarrow> state \<Rightarrow> state" where
  "glUniformMatrix4fv location s =
     (if location = - 1 then s
      else s\<lparr>uniform_uploads := uniform_uploads s @ [(current_program s, location)]\<rparr>)"

definition glDrawElements :: "GLmode \<Rightarrow> nat \<Rightarrow> state \<Rightarrow> state" where
  "glDrawElements mode count s =
     s\<lparr>draws := draws s @
        [DrawElements mode count
           (case buffer_store s (element_array_buffer_binding s) of
              Some (Indices xs) \<Rightarrow> Some (take count xs)
            | _ \<Rightarrow> None)]\<rparr>"

definition print :: "out_item list \<Rightarrow> state \<Rightarrow> state" where
  "print items s = s\<lparr>cout := cout s @ items\<rparr>"

section \<open>The program\<close>

definition nl :: string where
  "nl = [CHR 0x0A]"

definition vertexShader :: string where
  "vertexShader =
     ''#version 330'' @ nl @
     nl @
     ''layout (location = 0) in vec3 pos;'' @ nl @
     ''uniform mat4 model;'' @ nl @
     ''uniform mat4 projection;'' @ nl @
     nl @
     ''out vec4 vertexColor;'' @ nl @
     nl @
     ''void main()'' @ nl @
     ''{'' @ nl @
     ''   gl_Position = projection * model * vec4(pos.x, pos.y, pos.z, 1.0);'' @ nl @
     ''   vertexColor = vec4(clamp(pos, 0.0f, 1.0f), 1.0f);'' @ nl @
     ''}'' @ nl"

definition fragmentShader :: string where
  "fragmentShader =
     ''#version 330'' @ nl @
     nl @
     ''in vec4 vertexColor;'' @ nl @
     nl @
     ''out vec4 color;'' @ nl @
     nl @
     ''void main()'' @ nl @
     ''{'' @ nl @
     ''   color = vertexColor;'' @ nl @
     ''}'' @ nl"

subsection \<open>\<^verbatim>\<open>createTriangle\<close> (lines 63--108)\<close>

definition indices :: "GLuint list" where
  "indices = [0, 3, 1,
              1, 3, 2,
              2, 3, 0,
              0, 1, 2]"

definition vertices :: "rat list" where
  "vertices = [- 1, - 1, 0,
               0, - 1, 1,
               1, - 1, 0,
               1, 1, 0]"

definition createTriangle :: "state \<Rightarrow> state" where
  "createTriangle s0 =
     (let (n, s) = glGenVertexArrays s0;
          s = s\<lparr>vao := n\<rparr>;
          s = glBindVertexArray (vao s) s;
          (n, s) = glGenBuffers s;
          s = s\<lparr>ibo := n\<rparr>;
          s = glBindBuffer GL_ELEMENT_ARRAY_BUFFER (ibo s) s;
          s = glBufferData GL_ELEMENT_ARRAY_BUFFER (Indices indices) s;
          (n, s) = glGenBuffers s;
          s = s\<lparr>vbo := n\<rparr>;
          s = glBindBuffer GL_ARRAY_BUFFER (vbo s) s;
          s = glBufferData GL_ARRAY_BUFFER (Floats vertices) s;
          s = glVertexAttribPointer 0 3 s;
          s = glEnableVertexAttribArray 0 s;
          s = glBindBuffer GL_ARRAY_BUFFER 0 s;
          s = glBindBuffer GL_ELEMENT_ARRAY_BUFFER 0 s
      in glBindVertexArray 0 s)"

subsection \<open>\<^verbatim>\<open>addShader\<close> (lines 110--141)\<close>

definition addShader :: "driver \<Rightarrow> GLuint \<Rightarrow> string \<Rightarrow> GLstage \<Rightarrow> state \<Rightarrow> state" where
  "addShader d program source type s =
     (let newShader = glCreateShader_result d type;
          result = compile_status d type source
      in if \<not> result
         then print [OStr ''Error compiling the '', ONum (GLenum_value type), OStr '' shader: '',
                     OStr (info_log_text 1024 (shader_info_log d type source)), OStr nl] s
         else glAttachShader program newShader s)"

subsection \<open>\<^verbatim>\<open>compileShaders\<close> (lines 143--184)\<close>

definition compileShaders :: "driver \<Rightarrow> state \<Rightarrow> state" where
  "compileShaders d s0 =
     (let s = s0\<lparr>shader := glCreateProgram_result d\<rparr>
      in if shader s = 0
         then print [OStr (''Error creating shader program'' @ nl)] s
         else
           let s = addShader d (shader s) vertexShader GL_VERTEX_SHADER s;
               s = addShader d (shader s) fragmentShader GL_FRAGMENT_SHADER s
           in if \<not> link_status d
              then print [OStr ''Error linking program: '',
                          OStr (info_log_text 1024 (link_info_log d)), OStr nl] s
              else if \<not> validate_status d
              then print [OStr ''Error validating program: '',
                          OStr (info_log_text 1024 (validate_info_log d)), OStr nl] s
              else
                let s = s\<lparr>uniformModel := word_of_int (uniform_location d ''model'')\<rparr>
                in s\<lparr>uniformProjection := word_of_int (uniform_location d ''projection'')\<rparr>)"

subsection \<open>One iteration of the main loop (lines 256--326)\<close>

text \<open>Lines 273--275: the three colour channels, computed from the phase \<^verbatim>\<open>i\<close>.\<close>

definition channel_r :: "libm \<Rightarrow> rat \<Rightarrow> rat" where
  "channel_r lm i = round32 \<bar>std_sin lm (fadd64 i (round64 (round64 (2 * M_PI) / 3)))\<bar>"

definition channel_g :: "libm \<Rightarrow> rat \<Rightarrow> rat" where
  "channel_g lm i = round32 \<bar>std_sinf lm i\<bar>"

definition channel_b :: "libm \<Rightarrow> rat \<Rightarrow> rat" where
  "channel_b lm i = round32 \<bar>std_sin lm (fsub64 i (round64 (round64 (2 * M_PI) / 3)))\<bar>"

text \<open>Lines 277--289: the oscillating offset and its direction flag.\<close>

definition offset_update :: "rat \<Rightarrow> rat \<Rightarrow> bool \<times> rat \<Rightarrow> bool \<times> rat" where
  "offset_update mx inc = (\<lambda>(dir, x).
     (let x' = (if dir then fadd32 x inc else fsub32 x inc)
      in (if mx \<le> \<bar>x'\<bar> then \<not> dir else dir, x')))"

definition update_offset :: "state \<Rightarrow> state" where
  "update_offset s =
     (let (dir, x) = offset_update (triMaxOffset s) (triTranslationIncrement s)
                       (direction s, triOffset s)
      in s\<lparr>direction := dir, triOffset := x\<rparr>)"

text \<open>Lines 291--294: the wrap of the angle.\<close>

definition angle_wrap :: "rat \<Rightarrow> rat" where
  "angle_wrap a = (if 360 \<le> a then fsub32 a 360 else a)"

definition frame :: "libm \<Rightarrow> state \<Rightarrow> state" where
  "frame lm s0 =
     (let r = channel_r lm (phase_i s0);
          g = channel_g lm (phase_i s0);
          b = channel_b lm (phase_i s0);
          s = update_offset s0;
          s = s\<lparr>currentAngle := angle_wrap (currentAngle s)\<rparr>;
          s = glClearColor r g b 1 s;
          s = glUseProgram (shader s) s;
          s = print [OFloat (currentAngle s), OStr nl] s;
          s = glUniformMatrix4fv (sint (uniformModel s)) s;
          s = glUniformMatrix4fv (sint (uniformProjection s)) s;
          s = glBindVertexArray (vao s) s;
          s = glBindBuffer GL_ELEMENT_ARRAY_BUFFER (ibo s) s;
          s = glDrawElements GL_TRIANGLES 12 s;
          s = glBindBuffer GL_ELEMENT_ARRAY_BUFFER 0 s;
          s = glBindVertexArray 0 s;
          s = glUseProgram 0 s;
          s = s\<lparr>phase_i := fadd32 (phase_i s) (round32 (5 / 100000))\<rparr>
      in s\<lparr>currentAngle := fadd32 (currentAngle s) (round32 (5 / 100))\<rparr>)"

subsection \<open>\<^verbatim>\<open>main\<close> (lines 186--332)\<close>

text \<open>The loop runs until the window reports a close request; a run in which it never
  does has no result.\<close>

partial_function (option) main_loop :: "libm \<Rightarrow> driver \<Rightarrow> nat \<Rightarrow> state \<Rightarrow> state option" where
  "main_loop lm d k s =
     (if glfwWindowShouldClose d k then Some s else main_loop lm d (Suc k) (frame lm s))"

definition main :: "libm \<Rightarrow> driver \<Rightarrow> (int \<times> state) option" where
  "main lm d =
     (if \<not> glfwInit_ok d
      then Some (1, print [OStr (''GLFW failed to initialize'' @ nl)] init_state)
      else if \<not> glfwCreateWindow_ok d
      then Some (1, print [OStr (''Could not create main GLFW window'' @ nl)] init_state)
      else if glewInit_result d = GLEW_OK
      then Some (1, print [OStr (''Could not initialize GLEW'' @ nl)] init_state)
      else
        case main_loop lm d 0 (compileShaders d (createTriangle init_state)) of
          None \<Rightarrow> None
        | Some s \<Rightarrow> Some (0, s))"

subsection \<open>Primitive assembly\<close>

text \<open>How \<^verbatim>\<open>GL_TRIANGLES\<close> groups an index list: three consecutive indices per triangle.\<close>

fun triangles :: "'a list \<Rightarrow> ('a \<times> 'a \<times> 'a) list" where
  "triangles (a # b # c # xs) = (a, b, c) # triangles xs"
| "triangles _ = []"

subsection \<open>A concrete environment\<close>

text \<open>A driver on which every setup step succeeds in the sense the code tests for
  (\<^verbatim>\<open>glewInit\<close> returns a value other than \<^verbatim>\<open>GLEW_OK\<close>), every shader stage compiles,
  and the window is closed after two frames.\<close>

definition sample_driver :: driver where
  "sample_driver =
     \<lparr> glfwInit_ok = True, glfwCreateWindow_ok = True, glewInit_result = 1,
       glfwWindowShouldClose = (\<lambda>k. 2 \<le> k),
       glCreateProgram_result = 1,
       glCreateShader_result = (\<lambda>t. case t of GL_VERTEX_SHADER \<Rightarrow> 2 | GL_FRAGMENT_SHADER \<Rightarrow> 3),
       compile_status = (\<lambda>t src. True), shader_info_log = (\<lambda>t src. []),
       link_status = True, link_info_log = [], validate_status = True, validate_info_log = [],
       uniform_location =
         (\<lambda>name. if name = ''model'' then 0 else if name = ''projection'' then 1 else - 1) \<rparr>"

text \<open>The same driver with a vertex stage that does not compile.\<close>

definition broken_vertex_driver :: driver where
  "broken_vertex_driver =
     sample_driver\<lparr> compile_status := (\<lambda>t src. t \<noteq> GL_VERTEX_SHADER),
                    shader_info_log := (\<lambda>t src. ''0:1(1): error: syntax error'') \<rparr>"

text \<open>A stand-in for the library sine with values in \<open>[-1, 1]\<close>.\<close>

definition sample_libm :: libm where
  "sample_libm = \<lparr> std_sin = (\<lambda>x. x / (1 + \<bar>x\<bar>)), std_sinf = (\<lambda>x. x / (1 + \<bar>x\<bar>)) \<rparr>"

subsection \<open>Runs of the main loop\<close>

text \<open>The program state after \<open>n\<close> iterations of the main loop, the setup having gone through.\<close>

definition after_frames :: "libm \<Rightarrow> driver \<Rightarrow> nat \<Rightarrow> state" where
  "after_frames lm d n = (frame lm ^^ n) (compileShaders d (createTriangle init_state))"

text \<open>The offset update with the constants of line 29, and a check of a predicate along the
  first \<open>n\<close> states of an orbit.\<close>

definition osc :: "bool \<times> rat \<Rightarrow> bool \<times> rat" where
  "osc = offset_update 1 (round32 (15 / 1000))"

definition osc_count :: "nat \<times> bool \<times> rat \<Rightarrow> nat \<times> bool \<times> rat" where
  "osc_count = (\<lambda>(n, st). (Suc n, osc st))"

definition osc_ok :: "nat \<times> bool \<times> rat \<Rightarrow> bool" where
  "osc_ok = (\<lambda>(n, dir, x).
     \<bar>x\<bar> \<le> 1 + round32 (15 / 1000) \<and>
     (dir = (n mod 268 < 67 \<or> 201 \<le> n mod 268)) \<and>
     (if n = 67 then x = 8430545 / 8388608 else True) \<and>
     (if n = 17 \<or> n = 285 then x = 2139095 / 8388608 else True))"

fun orbit_all :: "('a \<Rightarrow> bool) \<Rightarrow> ('a \<Rightarrow> 'a) \<Rightarrow> 'a \<Rightarrow> nat \<Rightarrow> bool" where
  "orbit_all P f x 0 = True"
| "orbit_all P f x (Suc n) = (P x \<and> orbit_all P f (f x) n)"

subsection \<open>Auxiliary notions for the floating-point proofs\<close>

text \<open>The exponent of the unit in the last place that \<open>fround\<close> rounds \<open>x\<close> to.\<close>

definition ulp_exp :: "nat \<Rightarrow> int \<Rightarrow> rat \<Rightarrow> int" where
  "ulp_exp p emin x = max (ilog2 \<bar>x\<bar>) emin - (int p - 1)"

text \<open>What holds of \<^verbatim>\<open>currentAngle\<close> between two frames: it lies in \<open>[0, 361]\<close>, and from
  256 on it is a multiple of \<open>2\<^sup>-\<^sup>1\<^sup>5\<close>, the binary32 spacing there.\<close>

definition angle_inv :: "rat \<Rightarrow> bool" where
  "angle_inv a = (0 \<le> a \<and> a \<le> 361 \<and> (a < 256 \<or> (\<exists>m. a = of_int m / 32768)))"

text \<open>What one frame does to \<^verbatim>\<open>currentAngle\<close>: the wrap of lines 291--294, then the
  increment of line 321.\<close>

definition angle_frame :: "rat \<Rightarrow> rat" where
  "angle_frame a = fadd32 (angle_wrap a) (round32 (5 / 100))"

text \<open>What one frame does to the colour phase \<^verbatim>\<open>i\<close> (line 320), and what holds of the phase
  between two frames: it lies in \<open>[0, 1024]\<close> and is 0 or the rounding of a value of at
  least \<open>2\<^sup>-\<^sup>1\<^sup>5\<close>.\<close>

definition phase_frame :: "rat \<Rightarrow> rat" where
  "phase_frame p = fadd32 p (round32 (5 / 100000))"

definition phase_inv :: "rat \<Rightarrow> bool" where
  "phase_inv p = (0 \<le> p \<and> p \<le> 1024 \<and> (p = 0 \<or> (\<exists>y. pow2 (- 15) \<le> y \<and> p = round32 y)))"

section \<open>Effects of the OpenGL calls\<close>

lemmas gl_defs = glGenVertexArrays_def glGenBuffers_def glBindVertexArray_def
  glBufferData_def glVertexAttribPointer_def glEnableVertexAttribArray_def glAttachShader_def
  glUseProgram_def glClearColor_def glUniformMatrix4fv_def glDrawElements_def print_def

lemma frame_globals:
  "vao (frame lm s) = vao s" "ibo (frame lm s) = ibo s" "vbo (frame lm s) = vbo s"
  "shader (frame lm s) = shader s"
  "uniformModel (frame lm s) = uniformModel s" "uniformProjection (frame lm s) = uniformProjection s"
  "buffer_store (frame lm s) = buffer_store s"
  "triMaxOffset (frame lm s) = triMaxOffset s"
  "triTranslationIncrement (frame lm s) = triTranslationIncrement s"
  by (simp_all add: frame_def update_offset_def gl_defs Let_def split_def)

lemma frame_uploads:
  "uniform_uploads (frame lm s) =
     uniform_uploads s @
     (if sint (uniformModel s) = - 1 then [] else [(shader s, sint (uniformModel s))]) @
     (if sint (uniformProjection s) = - 1 then [] else [(shader s, sint (uniformProjection s))])"
  by (simp add: frame_def update_offset_def gl_defs Let_def split_def)

lemma frame_draws:
  "draws (frame lm s) =
     draws s @ [DrawElements GL_TRIANGLES 12
                  (case buffer_store s (ibo s) of Some (Indices xs) \<Rightarrow> Some (take 12 xs) | _ \<Rightarrow> None)]"
  by (simp add: frame_def update_offset_def gl_defs Let_def split_def)

lemma frames_globals:
  "vao ((frame lm ^^ n) s) = vao s \<and> ibo ((frame lm ^^ n) s) = ibo s \<and>
   shader ((frame lm ^^ n) s) = shader s \<and>
   uniformModel ((frame lm ^^ n) s) = uniformModel s \<and>
   uniformProjection ((frame lm ^^ n) s) = uniformProjection s \<and>
   buffer_store ((frame lm ^^ n) s) = buffer_store s \<and>
   triMaxOffset ((frame lm ^^ n) s) = triMaxOffset s \<and>
   triTranslationIncrement ((frame lm ^^ n) s) = triTranslationIncrement s"
  by (induction n) (simp_all add: frame_globals)

lemma addShader_globals:
  "uniformModel (addShader d p src t s) = uniformModel s"
  "uniformProjection (addShader d p src t s) = uniformProjection s"
  "shader (addShader d p src t s) = shader s"
  "uniform_uploads (addShader d p src t s) = uniform_uploads s"
  "draws (addShader d p src t s) = draws s"
  "buffer_store (addShader d p src t s) = buffer_store s"
  "ibo (addShader d p src t s) = ibo s"
  by (simp_all add: addShader_def gl_defs Let_def)

lemma createTriangle_init:
  "uniformModel (createTriangle init_state) = 0"
  "uniformProjection (createTriangle init_state) = 0"
  "uniform_uploads (createTriangle init_state) = []"
  "draws (createTriangle init_state) = []"
  "ibo (createTriangle init_state) = 1"
  "vbo (createTriangle init_state) = 2"
  "vao (createTriangle init_state) = 1"
  "buffer_store (createTriangle init_state) 1 = Some (Indices indices)"
  "buffer_store (createTriangle init_state) 2 = Some (Floats vertices)"
  by (simp_all add: createTriangle_def init_state_def gl_defs Let_def)


lemma compileShaders_globals:
  "uniform_uploads (compileShaders d s) = uniform_uploads s"
  "draws (compileShaders d s) = draws s"
  "buffer_store (compileShaders d s) = buffer_store s"
  "ibo (compileShaders d s) = ibo s"
  "shader (compileShaders d s) = glCreateProgram_result d"
  by (simp_all add: compileShaders_def addShader_globals print_def Let_def)


lemma replicate_append_two: "replicate k x @ [x, x] = x # x # replicate k x"
  by (induction k) auto

lemma frames_uploads_zero:
  "uniformModel s = 0 \<Longrightarrow> uniformProjection s = 0 \<Longrightarrow>
   uniform_uploads ((frame lm ^^ n) s) = uniform_uploads s @ replicate (2 * n) (shader s, 0)"
proof (induction n)
  case 0
  then show ?case by simp
next
  case (Suc n)
  then show ?case
    using frames_globals [where lm = lm and n = n and s = s]
    by (simp add: frame_uploads replicate_append_two)
qed

lemma frames_draws:
  "buffer_store s (ibo s) = Some (Indices xs) \<Longrightarrow>
   draws ((frame lm ^^ n) s) = draws s @ replicate n (DrawElements GL_TRIANGLES 12 (Some (take 12 xs)))"
proof (induction n)
  case 0
  then show ?case by simp
next
  case (Suc n)
  then show ?case
    using frames_globals [where lm = lm and n = n and s = s]
    by (simp add: frame_draws replicate_append_same)
qed

section \<open>Geometry upload\<close>

text \<open>
  Claim C10.  On return from \<^verbatim>\<open>createTriangle\<close> the vertex-array binding, the
  array-buffer binding and the element-array-buffer binding are all 0, whatever the state
  it was called in.
\<close>

theorem createTriangle_unbinds:
  "vertex_array_binding (createTriangle s) = 0 \<and>
   array_buffer_binding (createTriangle s) = 0 \<and>
   element_array_buffer_binding (createTriangle s) = 0"
  by (simp add: createTriangle_def glGenVertexArrays_def glGenBuffers_def glBindVertexArray_def
      glBufferData_def glVertexAttribPointer_def glEnableVertexAttribArray_def Let_def)

text \<open>
  Claim C8.  The vertex buffer holds 4 vertices of 3 coordinates each, the index buffer
  holds the 12 indices \<open>0 3 1, 1 3 2, 2 3 0, 0 1 2\<close>, which are 4 triangles (three sides
  through the apex 3 and the base \<open>0 1 2\<close>) over the vertices 0 to 3 only, and each frame
  issues exactly one \<^verbatim>\<open>glDrawElements\<close> call that submits these 12 indices as triangles.
\<close>

theorem pyramid_geometry_drawn_once_per_frame:
  "length vertices = 4 * 3 \<and> length indices = 12 \<and> set indices = {0, 1, 2, 3} \<and>
   triangles indices = [(0, 3, 1), (1, 3, 2), (2, 3, 0), (0, 1, 2)] \<and>
   buffer_store (createTriangle init_state) (ibo (createTriangle init_state)) = Some (Indices indices) \<and>
   buffer_store (createTriangle init_state) (vbo (createTriangle init_state)) = Some (Floats vertices) \<and>
   draws ((frame lm ^^ n) (compileShaders d (createTriangle init_state))) =
     replicate n (DrawElements GL_TRIANGLES 12 (Some indices))"
proof -
  let ?s = "compileShaders d (createTriangle init_state)"
  have "buffer_store ?s (ibo ?s) = Some (Indices indices)"
    by (simp add: compileShaders_globals createTriangle_init)
  from frames_draws [OF this, where lm = lm and n = n]
  have "draws ((frame lm ^^ n) ?s) = replicate n (DrawElements GL_TRIANGLES 12 (Some indices))"
    by (simp add: compileShaders_globals createTriangle_init indices_def)
  moreover have "set indices = {0, 1, 2, 3}" by (auto simp add: indices_def)
  ultimately show ?thesis
    by (simp add: createTriangle_init) (simp add: indices_def vertices_def)
qed

section \<open>Shader compilation\<close>

lemma info_log_text_length: "length (info_log_text 1024 msg) \<le> 1023"
proof -
  have "length (info_log_text 1024 msg) \<le> length (take 1023 msg)"
    unfolding info_log_text_def by (simp add: length_takeWhile_le del: length_take)
  then show ?thesis by simp
qed

text \<open>
  Claim C9.  When a stage does not compile, \<^verbatim>\<open>addShader\<close> prints the diagnostic log, of
  which it reads fewer than 1024 characters, attaches nothing and returns with the rest of
  the state unchanged; \<^verbatim>\<open>compileShaders\<close> goes on with the next stage, which is attached
  when it compiles.
\<close>

theorem compile_failure_warns_and_continues:
  assumes "\<not> compile_status d type source"
  shows "addShader d program source type s =
           s\<lparr>cout := cout s @
              [OStr ''Error compiling the '', ONum (GLenum_value type), OStr '' shader: '',
               OStr (info_log_text 1024 (shader_info_log d type source)), OStr nl]\<rparr> \<and>
         length (info_log_text 1024 (shader_info_log d type source)) < 1024 \<and>
         attached (addShader d program source type s) = attached s \<and>
         (glCreateProgram_result d \<noteq> 0 \<and> type = GL_VERTEX_SHADER \<and> source = vertexShader \<and>
          compile_status d GL_FRAGMENT_SHADER fragmentShader \<longrightarrow>
          attached (compileShaders d s) (glCreateProgram_result d) =
            attached s (glCreateProgram_result d) @ [glCreateShader_result d GL_FRAGMENT_SHADER])"
proof -
  have a: "addShader d program source type s =
           s\<lparr>cout := cout s @
              [OStr ''Error compiling the '', ONum (GLenum_value type), OStr '' shader: '',
               OStr (info_log_text 1024 (shader_info_log d type source)), OStr nl]\<rparr>"
    using assms by (simp add: addShader_def print_def)
  then have b: "attached (addShader d program source type s) = attached s" by simp
  have c: "length (info_log_text 1024 (shader_info_log d type source)) < 1024"
    using info_log_text_length [of "shader_info_log d type source"] by simp
  have e: "glCreateProgram_result d \<noteq> 0 \<and> type = GL_VERTEX_SHADER \<and> source = vertexShader \<and>
         compile_status d GL_FRAGMENT_SHADER fragmentShader \<longrightarrow>
         attached (compileShaders d s) (glCreateProgram_result d) =
           attached s (glCreateProgram_result d) @ [glCreateShader_result d GL_FRAGMENT_SHADER]"
    using assms
    by (auto simp add: compileShaders_def addShader_def print_def glAttachShader_def Let_def)
  from a b c e show ?thesis by blast
qed

theorem compile_failure_warns_and_continues_witness:
  "\<not> compile_status broken_vertex_driver GL_VERTEX_SHADER vertexShader \<and>
   cout (addShader broken_vertex_driver 1 vertexShader GL_VERTEX_SHADER init_state) =
     [OStr ''Error compiling the '', ONum 35633, OStr '' shader: '',
      OStr ''0:1(1): error: syntax error'', OStr nl] \<and>
   attached (addShader broken_vertex_driver 1 vertexShader GL_VERTEX_SHADER init_state) 1 = [] \<and>
   attached (compileShaders broken_vertex_driver init_state) 1 = [3]"
proof -
  have h: "\<not> compile_status broken_vertex_driver GL_VERTEX_SHADER vertexShader"
    by (simp add: broken_vertex_driver_def)
  show ?thesis
    using h compile_failure_warns_and_continues
      [OF h, where program = 1 and s = init_state]
    by (simp add: broken_vertex_driver_def sample_driver_def init_state_def info_log_text_def)
qed

lemma compileShaders_early_return:
  "\<not> link_status d \<or> \<not> validate_status d \<Longrightarrow>
   uniformModel (compileShaders d s) = uniformModel s \<and>
   uniformProjection (compileShaders d s) = uniformProjection s"
  by (auto simp add: compileShaders_def addShader_globals print_def Let_def)

text \<open>
  Claim C6.  When linking or validation fails, \<^verbatim>\<open>compileShaders\<close> returns before it
  resolves a uniform location: \<^verbatim>\<open>uniformModel\<close> and \<^verbatim>\<open>uniformProjection\<close> keep their
  initial value 0, which is not the ignored location \<open>-1\<close>, and every later frame uploads
  both matrices to location 0.
\<close>

theorem link_failure_uploads_to_location_0:
  assumes "\<not> link_status d \<or> \<not> validate_status d"
  shows "uniformModel (compileShaders d (createTriangle init_state)) = 0 \<and>
         uniformProjection (compileShaders d (createTriangle init_state)) = 0 \<and>
         sint (uniformModel (compileShaders d (createTriangle init_state))) \<noteq> - 1 \<and>
         uniform_uploads ((frame lm ^^ n) (compileShaders d (createTriangle init_state))) =
           replicate (2 * n) (glCreateProgram_result d, 0)"
proof -
  let ?s = "compileShaders d (createTriangle init_state)"
  have um: "uniformModel ?s = 0" and up: "uniformProjection ?s = 0"
    using compileShaders_early_return [OF assms, of "createTriangle init_state"]
    by (simp_all add: createTriangle_init)
  have "uniform_uploads ?s = []"
    by (simp add: compileShaders_globals createTriangle_init)
  then show ?thesis
    using frames_uploads_zero [OF um up, where lm = lm and n = n] um up by (simp add: compileShaders_globals)
qed

theorem link_failure_uploads_to_location_0_witness:
  "\<not> link_status (sample_driver\<lparr>link_status := False\<rparr>) \<and>
   uniformModel (compileShaders (sample_driver\<lparr>link_status := False\<rparr>) (createTriangle init_state)) = 0 \<and>
   uniform_uploads ((frame sample_libm ^^ 2)
       (compileShaders (sample_driver\<lparr>link_status := False\<rparr>) (createTriangle init_state))) =
     [(1, 0), (1, 0), (1, 0), (1, 0)]"
proof -
  have h: "\<not> link_status (sample_driver\<lparr>link_status := False\<rparr>) \<or>
           \<not> validate_status (sample_driver\<lparr>link_status := False\<rparr>)" by simp
  show ?thesis
    using link_failure_uploads_to_location_0 [OF h, where lm = sample_libm and n = 2]
    by (simp add: sample_driver_def numeral_2_eq_2)
qed

section \<open>Exit code\<close>

lemma main_loop_closes:
  "glfwWindowShouldClose d (k + n) \<Longrightarrow> (\<And>j. j < n \<Longrightarrow> \<not> glfwWindowShouldClose d (k + j)) \<Longrightarrow>
   main_loop lm d k s = Some ((frame lm ^^ n) s)"
proof (induction n arbitrary: k s)
  case 0
  then show ?case by (subst main_loop.simps) simp
next
  case (Suc n)
  have nc: "\<not> glfwWindowShouldClose d k" using Suc.prems(2) [of 0] by simp
  have "main_loop lm d (Suc k) (frame lm s) = Some ((frame lm ^^ n) (frame lm s))"
  proof (rule Suc.IH)
    show "glfwWindowShouldClose d (Suc k + n)" using Suc.prems(1) by simp
    fix j assume "j < n"
    then show "\<not> glfwWindowShouldClose d (Suc k + j)" using Suc.prems(2) [of "Suc j"] by simp
  qed
  then show ?case using nc by (subst main_loop.simps) (simp add: funpow_swap1)
qed

text \<open>
  Claim C1 says that \<^verbatim>\<open>main\<close> returns 1 exactly when a setup step fails.  The test at
  line 229 is \<^verbatim>\<open>glewInit() == GLEW_OK\<close>: on a driver where GLFW, the window and GLEW all
  initialise, \<^verbatim>\<open>main\<close> prints \<^verbatim>\<open>Could not initialize GLEW\<close> and returns 1.
\<close>

theorem main_returns_1_when_glew_succeeds:
  "map_option fst (main lm (sample_driver\<lparr>glewInit_result := GLEW_OK\<rparr>)) = Some 1 \<and>
   map_option (cout \<circ> snd) (main lm (sample_driver\<lparr>glewInit_result := GLEW_OK\<rparr>)) =
     Some [OStr (''Could not initialize GLEW'' @ nl)]"
  by (simp add: main_def sample_driver_def print_def init_state_def)

text \<open>When \<^verbatim>\<open>glewInit\<close> fails, the same test lets \<^verbatim>\<open>main\<close> run the loop and return 0.\<close>

lemma main_returns_0_when_glew_fails:
  "map_option fst (main lm sample_driver) = Some 0"
proof -
  have "main_loop lm sample_driver 0 s = Some ((frame lm ^^ 2) s)" for s
    by (rule main_loop_closes) (simp_all add: sample_driver_def)
  then show ?thesis by (simp add: main_def sample_driver_def GLEW_OK_def)
qed

section \<open>Evaluating floating-point operations\<close>

lemma floor_rat_numeral [simp]: "\<lfloor>(numeral a :: rat) / numeral b\<rfloor> = numeral a div numeral b"
  using floor_divide_of_int_eq [of "numeral a" "numeral b", where ?'a = rat] by simp
lemma floor_rat_neg_numeral [simp]: "\<lfloor>- ((numeral a :: rat) / numeral b)\<rfloor> = - numeral a div numeral b"
  using floor_divide_of_int_eq [of "- numeral a" "numeral b", where ?'a = rat] by simp

lemma ilog2_ge2: "2 \<le> x \<Longrightarrow> ilog2 x = ilog2 (x / 2) + 1"
  by (subst ilog2.simps) simp
lemma ilog2_lt1: "0 < x \<Longrightarrow> x < 1 \<Longrightarrow> ilog2 x = ilog2 (x * 2) - 1"
  by (subst ilog2.simps) simp
lemma ilog2_unit: "1 \<le> x \<Longrightarrow> x < 2 \<Longrightarrow> ilog2 x = 0"
  by (subst ilog2.simps) simp

lemma offset_update_pair:
  "offset_update mx inc (dir, x) =
     (let x' = (if dir then fadd32 x inc else fsub32 x inc)
      in (if mx \<le> \<bar>x'\<bar> then \<not> dir else dir, x'))"
  by (simp add: offset_update_def)

lemma funpow_num: "(f ^^ numeral k) x = (f ^^ pred_numeral k) (f x)"
  by (simp add: numeral_eq_Suc funpow_swap1)

lemmas float_eval = round32_def fround_def ilog2_ge2 ilog2_lt1 ilog2_unit rne_def pow2_def Let_def
  fadd32_def fsub32_def

lemma inc_val: "round32 (15 / 1000) = 16106127 / 1073741824"
  by (simp add: float_eval)

section \<open>Properties of rounding\<close>

lemma pow2_powi: "pow2 e = 2 powi e"
  by (simp add: pow2_def power_int_def inverse_eq_divide power_one_over)

lemma pow2_pos: "0 < pow2 e"
  by (simp add: pow2_powi)

lemma pow2_add: "pow2 (a + b) = pow2 a * pow2 b"
  by (simp add: pow2_powi power_int_add)

lemma pow2_diff: "pow2 (a - b) = pow2 a / pow2 b"
  by (simp add: pow2_powi power_int_diff)

lemma pow2_mono: "a \<le> b \<Longrightarrow> pow2 a \<le> pow2 b"
  by (simp add: pow2_powi power_int_increasing)

lemma pow2_less_cancel: "pow2 a < pow2 b \<Longrightarrow> a < b"
  using pow2_mono [of b a] by (cases "a < b") auto

lemma pow2_nat: "0 \<le> k \<Longrightarrow> pow2 k = of_int (2 ^ nat k)"
  by (simp add: pow2_def)

lemma pow2_Suc: "pow2 (e + 1) = 2 * pow2 e"
  by (simp add: pow2_add) (simp add: pow2_def)

lemma ilog2_bounds: "0 < x \<Longrightarrow> pow2 (ilog2 x) \<le> x \<and> x < pow2 (ilog2 x + 1)"
proof (induction x rule: ilog2.induct)
  case (1 x)
  show ?case
  proof (cases "2 \<le> x")
    case True
    then have e: "ilog2 x = ilog2 (x / 2) + 1" by (subst ilog2.simps) simp
    have "pow2 (ilog2 (x / 2)) \<le> x / 2 \<and> x / 2 < pow2 (ilog2 (x / 2) + 1)"
      using 1 True by simp
    then show ?thesis unfolding e pow2_Suc by simp
  next
    case False
    show ?thesis
    proof (cases "x < 1")
      case True
      then have e: "ilog2 x = ilog2 (x * 2) - 1" using 1(3) by (subst ilog2.simps) simp
      have "pow2 (ilog2 (x * 2)) \<le> x * 2 \<and> x * 2 < pow2 (ilog2 (x * 2) + 1)"
        using 1 True False by simp
      moreover have "pow2 (ilog2 (x * 2)) = 2 * pow2 (ilog2 (x * 2) - 1)"
        using pow2_Suc [of "ilog2 (x * 2) - 1"] by simp
      ultimately show ?thesis unfolding e by (simp add: pow2_Suc)
    next
      case F2: False
      then have "ilog2 x = 0" using False 1(3) by (subst ilog2.simps) simp
      then show ?thesis using False F2 by (simp add: pow2_def)
    qed
  qed
qed

lemma ilog2_le: "0 < x \<Longrightarrow> x < pow2 (E + 1) \<Longrightarrow> ilog2 x \<le> E"
  using ilog2_bounds [of x] pow2_less_cancel [of "ilog2 x" "E + 1"] by simp

lemma ilog2_ge: "0 < x \<Longrightarrow> pow2 E \<le> x \<Longrightarrow> E \<le> ilog2 x"
  using ilog2_bounds [of x] pow2_less_cancel [of E "ilog2 x + 1"] by simp

lemma ilog2_eq: "0 < x \<Longrightarrow> pow2 E \<le> x \<Longrightarrow> x < pow2 (E + 1) \<Longrightarrow> ilog2 x = E"
  using ilog2_le [of x E] ilog2_ge [of x E] by simp

lemma rne_le: "q \<le> of_int m \<Longrightarrow> rne q \<le> m"
proof -
  assume q: "q \<le> of_int m"
  have f: "\<lfloor>q\<rfloor> \<le> m" using q by (simp add: floor_le_iff)
  show ?thesis
  proof (cases "q = of_int \<lfloor>q\<rfloor>")
    case True
    then show ?thesis using f by (simp add: rne_def)
  next
    case False
    then have "of_int \<lfloor>q\<rfloor> < q" using of_int_floor_le [of q] by linarith
    then have "of_int \<lfloor>q\<rfloor> < (of_int m :: rat)" using q by linarith
    then have "\<lfloor>q\<rfloor> + 1 \<le> m" by simp
    then show ?thesis using f by (simp add: rne_def Let_def)
  qed
qed

lemma rne_ge: "of_int m \<le> q \<Longrightarrow> m \<le> rne q"
proof -
  assume "of_int m \<le> q"
  then have "m \<le> \<lfloor>q\<rfloor>" by (simp add: le_floor_iff)
  then show ?thesis by (simp add: rne_def Let_def)
qed

lemma rne_err: "\<bar>of_int (rne q) - q\<bar> \<le> 1 / 2"
proof -
  have "of_int \<lfloor>q\<rfloor> \<le> q" "q < of_int \<lfloor>q\<rfloor> + 1" by linarith+
  then show ?thesis by (auto simp add: rne_def Let_def abs_le_iff)
qed

lemma rne_near:
  assumes "of_int r - 1 / 2 < q" "q < of_int r + 1 / 2"
  shows "rne q = r"
proof (cases "of_int r \<le> q")
  case True
  then have "\<lfloor>q\<rfloor> = r" using assms by (intro floor_unique) simp_all
  then show ?thesis using assms by (simp add: rne_def)
next
  case False
  then have "\<lfloor>q\<rfloor> = r - 1" using assms by (intro floor_unique) simp_all
  then show ?thesis using assms by (simp add: rne_def)
qed

lemma rne_of_int [simp]: "rne (of_int n) = n"
  by (simp add: rne_def)

lemma fround_ulp: "x \<noteq> 0 \<Longrightarrow> fround p emin x = of_int (rne (x / pow2 (ulp_exp p emin x))) * pow2 (ulp_exp p emin x)"
  by (simp add: fround_def ulp_exp_def Let_def)

lemma grid_unscale:
  assumes "e \<le> k"
  shows "of_int (m * 2 ^ nat (k - e)) * pow2 e = of_int m * pow2 k"
proof -
  have "pow2 k = pow2 ((k - e) + e)" by simp
  also have "\<dots> = pow2 (k - e) * pow2 e" by (rule pow2_add)
  also have "pow2 (k - e) = 2 ^ nat (k - e)" using assms by (simp add: pow2_def)
  finally show ?thesis by simp
qed

lemma grid_scale:
  assumes "e \<le> k"
  shows "of_int m * pow2 k / pow2 e = of_int (m * 2 ^ nat (k - e))"
  unfolding grid_unscale [OF assms, symmetric] using pow2_pos [of e] by simp

lemma fround_le_grid:
  assumes "x \<noteq> 0" "ulp_exp p emin x \<le> k" "x \<le> of_int m * pow2 k"
  shows "fround p emin x \<le> of_int m * pow2 k"
proof -
  let ?e = "ulp_exp p emin x"
  have "x / pow2 ?e \<le> of_int m * pow2 k / pow2 ?e"
    using assms(3) pow2_pos [of ?e] by (simp add: divide_right_mono)
  then have "rne (x / pow2 ?e) \<le> m * 2 ^ nat (k - ?e)"
    unfolding grid_scale [OF assms(2)] by (rule rne_le)
  then have "(of_int (rne (x / pow2 ?e)) :: rat) \<le> of_int (m * 2 ^ nat (k - ?e))"
    by (simp only: of_int_le_iff)
  then have "of_int (rne (x / pow2 ?e)) * pow2 ?e \<le> of_int (m * 2 ^ nat (k - ?e)) * pow2 ?e"
    using pow2_pos [of ?e] by (simp add: mult_right_mono)
  also have "\<dots> = of_int m * pow2 k"
    by (rule grid_unscale [OF assms(2)])
  finally show ?thesis using assms(1) by (simp add: fround_ulp)
qed

lemma fround_ge_grid:
  assumes "x \<noteq> 0" "ulp_exp p emin x \<le> k" "of_int m * pow2 k \<le> x"
  shows "of_int m * pow2 k \<le> fround p emin x"
proof -
  let ?e = "ulp_exp p emin x"
  have "of_int m * pow2 k / pow2 ?e \<le> x / pow2 ?e"
    using assms(3) pow2_pos [of ?e] by (simp add: divide_right_mono)
  then have "m * 2 ^ nat (k - ?e) \<le> rne (x / pow2 ?e)"
    unfolding grid_scale [OF assms(2)] by (rule rne_ge)
  then have "(of_int (m * 2 ^ nat (k - ?e)) :: rat) \<le> of_int (rne (x / pow2 ?e))"
    by (simp only: of_int_le_iff)
  then have "of_int (m * 2 ^ nat (k - ?e)) * pow2 ?e \<le> of_int (rne (x / pow2 ?e)) * pow2 ?e"
    using pow2_pos [of ?e] by (simp add: mult_right_mono)
  then have "of_int m * pow2 k \<le> of_int (rne (x / pow2 ?e)) * pow2 ?e"
    by (simp only: grid_unscale [OF assms(2)])
  then show ?thesis using assms(1) by (simp add: fround_ulp)
qed

lemma fround_err:
  assumes "x \<noteq> 0"
  shows "\<bar>fround p emin x - x\<bar> \<le> pow2 (ulp_exp p emin x) / 2"
proof -
  let ?e = "ulp_exp p emin x"
  have "\<bar>of_int (rne (x / pow2 ?e)) - x / pow2 ?e\<bar> * pow2 ?e \<le> 1 / 2 * pow2 ?e"
    using rne_err [of "x / pow2 ?e"] pow2_pos [of ?e] by (simp add: mult_right_mono)
  moreover have "\<bar>of_int (rne (x / pow2 ?e)) - x / pow2 ?e\<bar> * pow2 ?e =
                 \<bar>of_int (rne (x / pow2 ?e)) * pow2 ?e - x\<bar>"
  proof -
    have "\<bar>of_int (rne (x / pow2 ?e)) - x / pow2 ?e\<bar> * pow2 ?e =
          \<bar>(of_int (rne (x / pow2 ?e)) - x / pow2 ?e) * pow2 ?e\<bar>"
      using pow2_pos [of ?e] by (simp add: abs_mult)
    also have "(of_int (rne (x / pow2 ?e)) - x / pow2 ?e) * pow2 ?e =
               of_int (rne (x / pow2 ?e)) * pow2 ?e - x"
      using pow2_pos [of ?e] by (simp add: left_diff_distrib)
    finally show ?thesis .
  qed
  ultimately show ?thesis using assms by (simp add: fround_ulp)
qed

lemma ulp_exp_le:
  assumes "x \<noteq> 0" "\<bar>x\<bar> < pow2 (E + 1)" "emin \<le> E"
  shows "ulp_exp p emin x \<le> E - (int p - 1)"
  using ilog2_le [of "\<bar>x\<bar>" E] assms by (simp add: ulp_exp_def)

lemma ulp_exp_eq:
  assumes "pow2 E \<le> \<bar>x\<bar>" "\<bar>x\<bar> < pow2 (E + 1)" "emin \<le> E"
  shows "ulp_exp p emin x = E - (int p - 1)"
proof -
  have "0 < \<bar>x\<bar>" using assms(1) pow2_pos [of E] by linarith
  then have "ilog2 \<bar>x\<bar> = E" using assms by (intro ilog2_eq) simp_all
  then show ?thesis using assms(3) by (simp add: ulp_exp_def)
qed

lemma round32_0 [simp]: "round32 0 = 0"
  by (simp add: round32_def fround_def)

lemma round32_unit_interval:
  assumes "0 \<le> y" "y \<le> 1"
  shows "0 \<le> round32 y \<and> round32 y \<le> 1"
proof (cases "y = 0")
  case True
  then show ?thesis by simp
next
  case False
  have "\<bar>y\<bar> < pow2 (0 + 1)" using assms by (simp add: pow2_def)
  then have u: "ulp_exp 24 (- 126) y \<le> 0"
    using ulp_exp_le [OF False, of 0 "- 126" 24] by simp
  have "of_int 0 * pow2 0 \<le> fround 24 (- 126) y"
    using assms by (intro fround_ge_grid [OF False u]) simp
  moreover have "fround 24 (- 126) y \<le> of_int 1 * pow2 0"
    using assms by (intro fround_le_grid [OF False u]) (simp add: pow2_def)
  ultimately show ?thesis by (simp add: round32_def pow2_def)
qed

section \<open>The oscillating offset\<close>

lemma orbit_all_numeral:
  "orbit_all P f x (numeral k) = (P x \<and> orbit_all P f (f x) (pred_numeral k))"
  by (simp add: numeral_eq_Suc)

lemma orbit_all_one: "orbit_all P f x 1 = P x"
  using orbit_all.simps(2) [of P f x 0] by simp

lemma osc_count_triple: "osc_count (n, dir, x) = (Suc n, offset_update 1 (16106127 / 1073741824) (dir, x))"
  unfolding osc_count_def osc_def inc_val by simp

lemma osc_ok_triple: "osc_ok (n, dir, x) = (\<bar>x\<bar> \<le> 1 + 16106127 / 1073741824 \<and>
     (dir = (n mod 268 < 67 \<or> 201 \<le> n mod 268)) \<and>
     (if n = 67 then x = 8430545 / 8388608 else True) \<and>
     (if n = 17 \<or> n = 285 then x = 2139095 / 8388608 else True))"
  unfolding osc_ok_def inc_val by simp

lemma osc_orbit_checked: "orbit_all osc_ok osc_count (0, True, 0) 286"
  by (simp add: orbit_all_numeral orbit_all_one osc_count_triple osc_ok_triple offset_update_pair float_eval)


lemma orbit_all_funpow: "orbit_all P f x n \<Longrightarrow> m < n \<Longrightarrow> P ((f ^^ m) x)"
proof (induction n arbitrary: x m)
  case 0
  then show ?case by simp
next
  case (Suc n)
  show ?case
  proof (cases m)
    case 0
    then show ?thesis using Suc.prems by simp
  next
    case (Suc k)
    then have "P ((f ^^ k) (f x))" using Suc.IH [of "f x" k] Suc.prems by simp
    then show ?thesis using Suc by (simp add: funpow_swap1)
  qed
qed

lemma osc_count_funpow: "(osc_count ^^ n) (k, st) = (k + n, (osc ^^ n) st)"
  by (induction n) (simp_all add: osc_count_def)

lemma osc_ok_upto: "n < 286 \<Longrightarrow> osc_ok (n, (osc ^^ n) (True, 0))"
  using orbit_all_funpow [OF osc_orbit_checked, of n] by (simp add: osc_count_funpow)

lemma osc_17: "(osc ^^ 17) (True, 0) = (True, 2139095 / 8388608)"
  using osc_ok_upto [of 17] by (cases "(osc ^^ 17) (True, 0)") (simp add: osc_ok_def)

lemma osc_285: "(osc ^^ 285) (True, 0) = (True, 2139095 / 8388608)"
  using osc_ok_upto [of 285] by (cases "(osc ^^ 285) (True, 0)") (simp add: osc_ok_def)

lemma osc_67: "(osc ^^ 67) (True, 0) = (False, 8430545 / 8388608)"
  using osc_ok_upto [of 67] by (cases "(osc ^^ 67) (True, 0)") (simp add: osc_ok_def)

lemma osc_period: "(osc ^^ (17 + 268 * q + r)) (True, 0) = (osc ^^ (17 + r)) (True, 0)"
proof (induction q)
  case 0
  then show ?case by simp
next
  case (Suc q)
  have e1: "17 + 268 * Suc q + r = (268 * q + r) + 285" by simp
  have e2: "17 + 268 * q + r = (268 * q + r) + 17" by simp
  have "(osc ^^ (17 + 268 * Suc q + r)) (True, 0) = (osc ^^ (268 * q + r)) ((osc ^^ 285) (True, 0))"
    unfolding e1 funpow_add by simp
  also have "\<dots> = (osc ^^ (268 * q + r)) ((osc ^^ 17) (True, 0))"
    by (simp only: osc_285 osc_17)
  also have "\<dots> = (osc ^^ (17 + 268 * q + r)) (True, 0)"
    unfolding e2 funpow_add by simp
  finally show ?case using Suc by simp
qed

text \<open>Every state of the oscillation occurs among the first 285, at an index congruent modulo 268.\<close>

lemma osc_reduce: "\<exists>m < 285. m mod 268 = n mod 268 \<and> (osc ^^ n) (True, 0) = (osc ^^ m) (True, 0)"
proof (cases "n < 17")
  case True
  then show ?thesis by (intro exI [of _ n]) simp
next
  case False
  define q where "q = (n - 17) div 268"
  define r where "r = (n - 17) mod 268"
  have n: "n = 17 + 268 * q + r" using False by (simp add: q_def r_def)
  have r: "r < 268" by (simp add: r_def)
  show ?thesis
  proof (intro exI [of _ "17 + r"] conjI)
    show "17 + r < 285" using r by simp
    have "17 + 268 * q + r = (17 + r) + q * 268" by simp
    then show "(17 + r) mod 268 = n mod 268" unfolding n by (simp only: mod_mult_self1)
    show "(osc ^^ n) (True, 0) = (osc ^^ (17 + r)) (True, 0)" unfolding n by (rule osc_period)
  qed
qed

lemma osc_always:
  "\<bar>snd ((osc ^^ n) (True, 0))\<bar> \<le> 1 + round32 (15 / 1000) \<and>
   fst ((osc ^^ n) (True, 0)) = (n mod 268 < 67 \<or> 201 \<le> n mod 268)"
proof -
  obtain m where m: "m < 285" "m mod 268 = n mod 268" "(osc ^^ n) (True, 0) = (osc ^^ m) (True, 0)"
    using osc_reduce [of n] by blast
  have "osc_ok (m, (osc ^^ m) (True, 0))" using m(1) by (intro osc_ok_upto) simp
  then show ?thesis unfolding m(3) using m(2)
    by (cases "(osc ^^ m) (True, 0)") (simp add: osc_ok_def)
qed

lemma frame_offset:
  "(direction (frame lm s), triOffset (frame lm s)) =
     offset_update (triMaxOffset s) (triTranslationIncrement s) (direction s, triOffset s)"
  by (simp add: frame_def update_offset_def gl_defs Let_def split_def)

lemma frames_offset:
  "(direction ((frame lm ^^ n) s), triOffset ((frame lm ^^ n) s)) =
     (offset_update (triMaxOffset s) (triTranslationIncrement s) ^^ n) (direction s, triOffset s)"
proof (induction n)
  case 0
  then show ?case by simp
next
  case (Suc n)
  have "(direction ((frame lm ^^ Suc n) s), triOffset ((frame lm ^^ Suc n) s)) =
        offset_update (triMaxOffset ((frame lm ^^ n) s)) (triTranslationIncrement ((frame lm ^^ n) s))
          (direction ((frame lm ^^ n) s), triOffset ((frame lm ^^ n) s))"
    using frame_offset [of lm "(frame lm ^^ n) s"] by simp
  then show ?case using Suc frames_globals [where lm = lm and n = n and s = s] by simp
qed

lemma setup_animation:
  "direction (compileShaders d (createTriangle init_state)) = True"
  "triOffset (compileShaders d (createTriangle init_state)) = 0"
  "triMaxOffset (compileShaders d (createTriangle init_state)) = 1"
  "triTranslationIncrement (compileShaders d (createTriangle init_state)) = round32 (15 / 1000)"
  "currentAngle (compileShaders d (createTriangle init_state)) = 0"
  "phase_i (compileShaders d (createTriangle init_state)) = 0"
  by (simp_all add: compileShaders_def addShader_def createTriangle_def init_state_def gl_defs Let_def)

lemma after_frames_osc:
  "(direction (after_frames lm d n), triOffset (after_frames lm d n)) = (osc ^^ n) (True, 0)"
  unfolding after_frames_def osc_def by (simp only: frames_offset setup_animation)

lemma after_frames_consts:
  "triMaxOffset (after_frames lm d n) = 1"
  "triTranslationIncrement (after_frames lm d n) = round32 (15 / 1000)"
  unfolding after_frames_def
  using frames_globals [where lm = lm and n = n and s = "compileShaders d (createTriangle init_state)"]
  by (simp_all add: setup_animation)

lemma after_frames_direction:
  "direction (after_frames lm d n) = (n mod 268 < 67 \<or> 201 \<le> n mod 268)"
  using osc_always [of n] after_frames_osc [of lm d n] by (metis fst_conv)

lemma after_frames_bound:
  "\<bar>triOffset (after_frames lm d n)\<bar> \<le> 1 + round32 (15 / 1000)"
  using osc_always [of n] after_frames_osc [of lm d n] by (metis snd_conv)

lemma after_frames_67: "triOffset (after_frames lm d 67) = 8430545 / 8388608"
  using osc_67 after_frames_osc [of lm d 67] by simp

lemma flip_rule:
  "(direction (frame lm s) \<noteq> direction s) = (triMaxOffset s \<le> \<bar>triOffset (frame lm s)\<bar>)"
  using frame_offset [of lm s] by (auto simp add: offset_update_def Let_def)

text \<open>
  Claim C2 says that the offset stays within \<open>[-offset_max, offset_max]\<close>.  The direction
  is tested after the step, and in the run from offset 0 the 67th step takes the offset to
  \<open>8430545 / 8388608\<close>, above \<open>offset_max = 1\<close>.
\<close>

theorem offset_exceeds_max_after_67_frames:
  "triOffset (after_frames sample_libm sample_driver 67) = 8430545 / 8388608 \<and>
   triMaxOffset (after_frames sample_libm sample_driver 67) = 1 \<and>
   \<not> \<bar>triOffset (after_frames sample_libm sample_driver 67)\<bar>
       \<le> triMaxOffset (after_frames sample_libm sample_driver 67)"
  by (simp add: after_frames_67 after_frames_consts)

text \<open>
  Claim C2, amended.  After every frame the offset lies within
  \<open>[-offset_max - offset_step, offset_max + offset_step]\<close>, and the direction flag changes
  in a frame exactly when, after the step of that frame, \<open>|offset| \<ge> offset_max\<close>.
\<close>

theorem offset_within_one_step_and_flip_rule:
  "\<bar>triOffset (after_frames lm d n)\<bar>
     \<le> triMaxOffset (after_frames lm d n) + triTranslationIncrement (after_frames lm d n) \<and>
   (direction (after_frames lm d (Suc n)) \<noteq> direction (after_frames lm d n)) =
     (triMaxOffset (after_frames lm d (Suc n)) \<le> \<bar>triOffset (after_frames lm d (Suc n))\<bar>)"
proof -
  have "(direction (after_frames lm d (Suc n)) \<noteq> direction (after_frames lm d n)) =
        (triMaxOffset (after_frames lm d n) \<le> \<bar>triOffset (after_frames lm d (Suc n))\<bar>)"
    using flip_rule [of lm "after_frames lm d n"] by (simp add: after_frames_def)
  then show ?thesis using after_frames_bound [of lm d n] by (simp add: after_frames_consts)
qed

text \<open>
  Claim C3.  After every frame the offset lies within
  \<open>[-offset_max - offset_step, offset_max + offset_step]\<close>; it is not clamped, and after
  frame 67 it lies above \<open>offset_max\<close>.
\<close>

theorem offset_overshoot_bounded:
  "- triMaxOffset (after_frames lm d n) - triTranslationIncrement (after_frames lm d n)
     \<le> triOffset (after_frames lm d n) \<and>
   triOffset (after_frames lm d n)
     \<le> triMaxOffset (after_frames lm d n) + triTranslationIncrement (after_frames lm d n) \<and>
   triMaxOffset (after_frames lm d 67) < triOffset (after_frames lm d 67)"
  using after_frames_bound [of lm d n] by (simp add: after_frames_consts after_frames_67 abs_le_iff)

lemma flip_frames:
  "((Suc n mod 268 < 67 \<or> 201 \<le> Suc n mod 268) \<noteq> (n mod 268 < 67 \<or> 201 \<le> n mod 268)) =
   (Suc n mod 134 = 67)"
proof -
  define a where "a = n mod 268"
  have a: "a < 268" by (simp add: a_def)
  have s1: "Suc n mod 268 = (if a = 267 then 0 else Suc a)"
    by (simp add: a_def mod_Suc)
  have m: "n mod 134 = a mod 134"
    by (simp add: a_def mod_mod_cancel)
  have am: "a mod 134 = (if a < 134 then a else a - 134)"
    using a by (simp add: le_mod_geq)
  have s2: "Suc n mod 134 = (if a mod 134 = 133 then 0 else Suc (a mod 134))"
    by (simp add: mod_Suc m)
  show ?thesis unfolding s1 s2 am a_def [symmetric] using a by (auto split: if_splits)
qed

text \<open>
  Claim C4.  With \<open>offset_max = 1\<close> and \<open>offset_step = 0.015f\<close> the quotient rounds up to 67.
  The direction is increasing after frames 0 to 66, decreasing after frames 67 to 200, and
  so on with period 268; so it flips on frame 67 for the first time, and then exactly on
  the frames \<open>67 + 134 k\<close>, once per half period.  After frame 67 the offset is
  \<open>8430545 / 8388608\<close>, within \<open>10\<^sup>-\<^sup>6\<close> of 1.005.
\<close>

theorem first_flip_on_frame_67:
  "nat \<lceil>triMaxOffset (after_frames lm d 0) / triTranslationIncrement (after_frames lm d 0)\<rceil> = 67 \<and>
   direction (after_frames lm d n) = (n mod 268 < 67 \<or> 201 \<le> n mod 268) \<and>
   (direction (after_frames lm d (Suc n)) \<noteq> direction (after_frames lm d n)) = (Suc n mod 134 = 67) \<and>
   triOffset (after_frames lm d 67) = 8430545 / 8388608 \<and>
   \<bar>triOffset (after_frames lm d 67) - 1005 / 1000\<bar> < 1 / 1000000"
proof -
  have "nat \<lceil>triMaxOffset (after_frames lm d 0) / triTranslationIncrement (after_frames lm d 0)\<rceil> = 67"
  proof -
    have "\<lceil>(1::rat) / (16106127 / 1073741824)\<rceil> = 67"
      by (rule ceiling_unique) simp_all
    then show ?thesis unfolding after_frames_consts inc_val by simp
  qed
  moreover have "direction (after_frames lm d n) = (n mod 268 < 67 \<or> 201 \<le> n mod 268)"
    by (rule after_frames_direction)
  moreover have "(direction (after_frames lm d (Suc n)) \<noteq> direction (after_frames lm d n)) =
                 (Suc n mod 134 = 67)"
    unfolding after_frames_direction by (rule flip_frames)
  moreover have "triOffset (after_frames lm d 67) = 8430545 / 8388608"
    by (rule after_frames_67)
  moreover have "\<bar>triOffset (after_frames lm d 67) - 1005 / 1000\<bar> < 1 / 1000000"
    unfolding after_frames_67 by simp
  ultimately show ?thesis by (intro conjI)
qed

section \<open>The angle\<close>

lemma angle_inc_val: "round32 (5 / 100) = 13421773 / 268435456"
  by (simp add: float_eval)

lemma pow2_m15: "pow2 (- 15) = 1 / 32768"
  by (simp add: pow2_def)

lemma angle_wrap_exact:
  assumes "angle_inv a" "360 \<le> a"
  shows "fsub32 a 360 = a - 360"
proof (cases "a = 360")
  case True
  then show ?thesis by (simp add: fsub32_def)
next
  case False
  obtain m where m: "a = of_int m / 32768" using assms by (auto simp add: angle_inv_def)
  let ?y = "a - 360"
  have y0: "?y \<noteq> 0" using False by simp
  have yg: "?y = of_int (m - 11796480) * pow2 (- 15)" by (simp add: m pow2_m15)
  have "\<bar>?y\<bar> < pow2 (0 + 1)" using assms by (simp add: angle_inv_def pow2_def)
  then have u: "ulp_exp 24 (- 126) ?y \<le> - 15"
    using ulp_exp_le [OF y0, of 0 "- 126" 24] by simp
  have "fround 24 (- 126) ?y \<le> of_int (m - 11796480) * pow2 (- 15)"
    by (rule fround_le_grid [OF y0 u]) (simp only: yg)
  moreover have "of_int (m - 11796480) * pow2 (- 15) \<le> fround 24 (- 126) ?y"
    by (rule fround_ge_grid [OF y0 u]) (simp only: yg)
  ultimately have "fround 24 (- 126) ?y = of_int (m - 11796480) * pow2 (- 15)" by (rule antisym)
  then show ?thesis unfolding fsub32_def round32_def by (simp only: yg)
qed

lemma angle_wrap_value:
  assumes "angle_inv a"
  shows "angle_wrap a = (if 360 \<le> a then a - 360 else a)"
    and "0 \<le> angle_wrap a" and "angle_wrap a < 360"
proof -
  show w: "angle_wrap a = (if 360 \<le> a then a - 360 else a)"
    using angle_wrap_exact [OF assms] by (simp add: angle_wrap_def)
  show "0 \<le> angle_wrap a" "angle_wrap a < 360"
    unfolding w using assms by (auto simp add: angle_inv_def)
qed

lemma angle_step:
  assumes "0 \<le> w" "w < 360"
  shows "angle_inv (fadd32 w (13421773 / 268435456))"
    and "w < fadd32 w (13421773 / 268435456)"
    and "\<bar>fadd32 w (13421773 / 268435456) - (w + 5 / 100)\<bar> \<le> 1 / 32768"
proof -
  let ?c = "13421773 / 268435456 :: rat"
  let ?x = "w + ?c"
  let ?a = "fadd32 w ?c"
  have a: "?a = fround 24 (- 126) ?x" by (simp add: fadd32_def round32_def)
  have x0: "?x \<noteq> 0" using assms by simp
  have "\<bar>?x\<bar> < pow2 (8 + 1)" using assms by (simp add: pow2_def)
  then have u: "ulp_exp 24 (- 126) ?x \<le> - 15"
    using ulp_exp_le [OF x0, of 8 "- 126" 24] by simp
  have "pow2 (ulp_exp 24 (- 126) ?x) \<le> pow2 (- 15)" using u by (rule pow2_mono)
  then have err: "\<bar>?a - ?x\<bar> \<le> 1 / 65536"
    using fround_err [OF x0, of 24 "- 126"] by (simp add: a pow2_m15)
  have lo: "?x - 1 / 65536 \<le> ?a" and hi: "?a \<le> ?x + 1 / 65536"
    using err unfolding abs_le_iff by linarith+
  show lt: "w < ?a" using lo by linarith
  show "\<bar>?a - (w + 5 / 100)\<bar> \<le> 1 / 32768"
    unfolding abs_le_iff using lo hi by linarith
  have le: "?a \<le> of_int 361 * pow2 0"
    unfolding a using u assms by (intro fround_le_grid [OF x0]) (simp_all add: pow2_def)
  have grid: "?a < 256 \<or> (\<exists>m. ?a = of_int m / 32768)"
  proof (cases "?x < 256")
    case True
    have "?a \<le> of_int 256 * pow2 0"
      unfolding a using u True by (intro fround_le_grid [OF x0]) (simp_all add: pow2_def)
    then have "?a < 256 \<or> ?a = of_int 8388608 / 32768" by (simp add: pow2_def) linarith
    then show ?thesis by blast
  next
    case False
    have "pow2 8 \<le> \<bar>?x\<bar>" "\<bar>?x\<bar> < pow2 (8 + 1)" using False assms by (simp_all add: pow2_def)
    then have "ulp_exp 24 (- 126) ?x = - 15"
      using ulp_exp_eq [of 8 ?x "- 126" 24] by simp
    then have "?a = of_int (rne (?x / pow2 (- 15))) / 32768"
      unfolding a by (simp add: fround_ulp [OF x0] pow2_m15)
    then show ?thesis by blast
  qed
  show "angle_inv ?a"
    using lt assms le grid by (simp add: angle_inv_def pow2_def)
qed

lemma frame_angle:
  "currentAngle (frame lm s) = fadd32 (angle_wrap (currentAngle s)) (round32 (5 / 100))"
  "cout (frame lm s) = cout s @ [OFloat (angle_wrap (currentAngle s)), OStr nl]"
  by (simp_all add: frame_def update_offset_def gl_defs Let_def split_def)

lemma after_frames_Suc: "after_frames lm d (Suc n) = frame lm (after_frames lm d n)"
  by (simp add: after_frames_def)

lemma angle_inv_run: "angle_inv (currentAngle (after_frames lm d n))"
proof (induction n)
  case 0
  show ?case by (simp add: after_frames_def setup_animation angle_inv_def)
next
  case (Suc n)
  show ?case
    unfolding after_frames_Suc frame_angle angle_inc_val
    using angle_wrap_value(2,3) [OF Suc] by (rule angle_step(1))
qed

lemma angle_frame_grid:
  assumes E: "- 126 \<le> E"
    and r: "of_int r - 1 / 2 < (13421773 / 268435456) / pow2 (E - 23)"
           "(13421773 / 268435456) / pow2 (E - 23) < of_int r + 1 / 2"
    and lo: "pow2 E \<le> of_int j * pow2 (E - 23)"
    and hi: "of_int j * pow2 (E - 23) + 13421773 / 268435456 < pow2 (E + 1)"
    and w: "of_int j * pow2 (E - 23) < 360"
  shows "angle_frame (of_int j * pow2 (E - 23)) = of_int (j + r) * pow2 (E - 23)"
proof -
  let ?u = "pow2 (E - 23)"
  let ?c = "13421773 / 268435456 :: rat"
  let ?x = "of_int j * ?u + ?c"
  have u: "0 < ?u" by (rule pow2_pos)
  have p: "0 < pow2 E" by (rule pow2_pos)
  have x0: "?x \<noteq> 0" using lo p by simp
  have "pow2 E \<le> \<bar>?x\<bar>" "\<bar>?x\<bar> < pow2 (E + 1)" using lo hi p by simp_all
  then have e: "ulp_exp 24 (- 126) ?x = E - 23"
    using ulp_exp_eq [of E ?x "- 126" 24] E by simp
  have "?x / ?u = of_int j + ?c / ?u" using u by (simp add: add_divide_distrib)
  moreover have "rne (of_int j + ?c / ?u) = j + r"
    using r by (intro rne_near) simp_all
  ultimately have "fround 24 (- 126) ?x = of_int (j + r) * ?u"
    by (simp add: fround_ulp [OF x0] e)
  moreover have "angle_wrap (of_int j * ?u) = of_int j * ?u"
    using w by (simp add: angle_wrap_def)
  ultimately show ?thesis
    unfolding angle_frame_def angle_inc_val by (simp add: fadd32_def round32_def)
qed

lemma angle_segment:
  assumes E: "- 126 \<le> E"
    and r: "of_int r - 1 / 2 < (13421773 / 268435456) / pow2 (E - 23)"
           "(13421773 / 268435456) / pow2 (E - 23) < of_int r + 1 / 2"
    and lo: "pow2 E \<le> of_int m * pow2 (E - 23)"
    and hi: "of_int (m + int n * r) * pow2 (E - 23) + 13421773 / 268435456 < pow2 (E + 1)"
    and w: "of_int (m + int n * r) * pow2 (E - 23) < 360"
    and k: "k \<le> Suc n"
  shows "(angle_frame ^^ k) (of_int m * pow2 (E - 23)) = of_int (m + int k * r) * pow2 (E - 23)"
  using k
proof (induction k)
  case 0
  show ?case by simp
next
  case (Suc k)
  let ?u = "pow2 (E - 23)"
  have u: "0 < ?u" by (rule pow2_pos)
  have r0: "0 \<le> r"
  proof -
    have "0 < (13421773 / 268435456) / ?u" using u by simp
    then have "(0::rat) < of_int r + 1 / 2" using r(2) by linarith
    then have "(of_int (- 1) :: rat) < of_int r" by simp
    then have "- 1 < r" unfolding of_int_less_iff .
    then show ?thesis by simp
  qed
  have kn: "int k * r \<le> int n * r" using Suc.prems r0 by (simp add: mult_right_mono)
  then have "m + int k * r \<le> m + int n * r" by simp
  then have "(of_int (m + int k * r) :: rat) \<le> of_int (m + int n * r)"
    unfolding of_int_le_iff .
  then have le: "of_int (m + int k * r) * ?u \<le> of_int (m + int n * r) * ?u"
    using u by (intro mult_right_mono) simp_all
  have "m \<le> m + int k * r" using r0 by simp
  then have "(of_int m :: rat) \<le> of_int (m + int k * r)"
    unfolding of_int_le_iff .
  then have ge: "of_int m * ?u \<le> of_int (m + int k * r) * ?u"
    using u by (intro mult_right_mono) simp_all
  have "angle_frame (of_int (m + int k * r) * ?u) = of_int ((m + int k * r) + r) * ?u"
    using lo hi w le ge by (intro angle_frame_grid [OF E r]) linarith+
  moreover have "(m + int k * r) + r = m + int (Suc k) * r" by (simp add: algebra_simps)
  ultimately show ?case using Suc by simp
qed


lemma angle_frame_eval: "angle_frame a = fadd32 (angle_wrap a) (13421773 / 268435456)"
  unfolding angle_frame_def angle_inc_val ..

lemma funpow_add_apply: "(f ^^ (m + n)) x = (f ^^ m) ((f ^^ n) x)"
  by (simp add: funpow_add)

lemma angle_run_81: "(angle_frame ^^ 81) 0 = 2123365 / 524288"
  by (simp add: funpow_num angle_frame_eval angle_wrap_def float_eval)

lemma angle_segment_2: "(angle_frame ^^ 78) (2123365 / 524288) = 130253 / 16384"
  using angle_segment [where E = 2 and r = 104858 and m = 8493460 and n = 77 and k = 78]
  by (simp add: pow2_def)

lemma angle_run_159: "(angle_frame ^^ 159) 0 = 130253 / 16384"
  using funpow_add_apply [where f = angle_frame and m = 78 and n = 81 and x = 0] by (simp add: angle_run_81 angle_segment_2)

lemma angle_run_160: "(angle_frame ^^ 160) 0 = 8388621 / 1048576"
proof -
  have "angle_frame (130253 / 16384) = 8388621 / 1048576"
    by (simp add: angle_frame_eval angle_wrap_def float_eval)
  then show ?thesis
    using funpow_add_apply [where f = angle_frame and m = 1 and n = 159 and x = 0] by (simp add: angle_run_159)
qed

lemma angle_segment_3: "(angle_frame ^^ 159) (8388621 / 1048576) = 522651 / 32768"
  using angle_segment [where E = 3 and r = 52429 and m = 8388621 and n = 158 and k = 159]
  by (simp add: pow2_def)

lemma angle_run_319: "(angle_frame ^^ 319) 0 = 522651 / 32768"
  using funpow_add_apply [where f = angle_frame and m = 159 and n = 160 and x = 0] by (simp add: angle_run_160 angle_segment_3)

lemma angle_run_320: "(angle_frame ^^ 320) 0 = 4194315 / 262144"
proof -
  have "angle_frame (522651 / 32768) = 4194315 / 262144"
    by (simp add: angle_frame_eval angle_wrap_def float_eval)
  then show ?thesis
    using funpow_add_apply [where f = angle_frame and m = 1 and n = 319 and x = 0] by (simp add: angle_run_319)
qed

lemma angle_segment_4: "(angle_frame ^^ 320) (4194315 / 262144) = 8388555 / 262144"
  using angle_segment [where E = 4 and r = 26214 and m = 8388630 and n = 319 and k = 320]
  by (simp add: pow2_def)

lemma angle_run_640: "(angle_frame ^^ 640) 0 = 8388555 / 262144"
  using funpow_add_apply [where f = angle_frame and m = 320 and n = 320 and x = 0] by (simp add: angle_run_320 angle_segment_4)

lemma angle_run_641: "(angle_frame ^^ 641) 0 = 4200831 / 131072"
proof -
  have "angle_frame (8388555 / 262144) = 4200831 / 131072"
    by (simp add: angle_frame_eval angle_wrap_def float_eval)
  then show ?thesis
    using funpow_add_apply [where f = angle_frame and m = 1 and n = 640 and x = 0] by (simp add: angle_run_640)
qed

lemma angle_segment_5: "(angle_frame ^^ 639) (4200831 / 131072) = 16777035 / 262144"
  using angle_segment [where E = 5 and r = 13107 and m = 8401662 and n = 638 and k = 639]
  by (simp add: pow2_def)

lemma angle_run_1280: "(angle_frame ^^ 1280) 0 = 16777035 / 262144"
  using funpow_add_apply [where f = angle_frame and m = 639 and n = 641 and x = 0] by (simp add: angle_run_641 angle_segment_5)

lemma angle_run_1281: "(angle_frame ^^ 1281) 0 = 8395071 / 131072"
proof -
  have "angle_frame (16777035 / 262144) = 8395071 / 131072"
    by (simp add: angle_frame_eval angle_wrap_def float_eval)
  then show ?thesis
    using funpow_add_apply [where f = angle_frame and m = 1 and n = 1280 and x = 0] by (simp add: angle_run_1280)
qed

lemma angle_segment_6: "(angle_frame ^^ 1278) (8395071 / 131072) = 16771083 / 131072"
  using angle_segment [where E = 6 and r = 6554 and m = 8395071 and n = 1277 and k = 1278]
  by (simp add: pow2_def)

lemma angle_run_2559: "(angle_frame ^^ 2559) 0 = 16771083 / 131072"
  using funpow_add_apply [where f = angle_frame and m = 1278 and n = 1281 and x = 0] by (simp add: angle_run_1281 angle_segment_6)

lemma angle_run_2560: "(angle_frame ^^ 2560) 0 = 4194409 / 32768"
proof -
  have "angle_frame (16771083 / 131072) = 4194409 / 32768"
    by (simp add: angle_frame_eval angle_wrap_def float_eval)
  then show ?thesis
    using funpow_add_apply [where f = angle_frame and m = 1 and n = 2559 and x = 0] by (simp add: angle_run_2559)
qed

lemma angle_segment_7: "(angle_frame ^^ 2559) (4194409 / 32768) = 16774661 / 65536"
  using angle_segment [where E = 7 and r = 3277 and m = 8388818 and n = 2558 and k = 2559]
  by (simp add: pow2_def)

lemma angle_run_5119: "(angle_frame ^^ 5119) 0 = 16774661 / 65536"
  using funpow_add_apply [where f = angle_frame and m = 2559 and n = 2560 and x = 0] by (simp add: angle_run_2560 angle_segment_7)

lemma angle_run_5120: "(angle_frame ^^ 5120) 0 = 8388969 / 32768"
proof -
  have "angle_frame (16774661 / 65536) = 8388969 / 32768"
    by (simp add: angle_frame_eval angle_wrap_def float_eval)
  then show ?thesis
    using funpow_add_apply [where f = angle_frame and m = 1 and n = 5119 and x = 0] by (simp add: angle_run_5119)
qed

lemma angle_segment_8: "(angle_frame ^^ 2080) (8388969 / 32768) = 11796009 / 32768"
  using angle_segment [where E = 8 and r = 1638 and m = 8388969 and n = 2079 and k = 2080]
  by (simp add: pow2_def)

lemma angle_run_7200: "(angle_frame ^^ 7200) 0 = 11796009 / 32768"
  using funpow_add_apply [where f = angle_frame and m = 2080 and n = 5120 and x = 0] by (simp add: angle_run_5120 angle_segment_8)

lemma angle_run_7201: "(angle_frame ^^ 7201) 0 = 11797647 / 32768"
proof -
  have "angle_frame (11796009 / 32768) = 11797647 / 32768"
    by (simp add: angle_frame_eval angle_wrap_def float_eval)
  then show ?thesis
    using funpow_add_apply [where f = angle_frame and m = 1 and n = 7200 and x = 0] by (simp add: angle_run_7200)
qed

lemma after_frames_angle: "currentAngle (after_frames lm d n) = (angle_frame ^^ n) 0"
proof (induction n)
  case 0
  show ?case by (simp add: after_frames_def setup_animation)
next
  case (Suc n)
  then show ?case by (simp add: after_frames_Suc frame_angle angle_frame_def)
qed

text \<open>
  Claim C5 says that the angle is reduced by 360 in the frame in which it crosses the
  threshold.  The increment is the last statement of the loop body and the test
  \<^verbatim>\<open>currentAngle >= 360\<close> comes before it: frame 7201 of the run starts with an angle
  below 360, where nothing is subtracted, and ends with \<open>11797647 / 32768\<close>, which is above
  360.  The reduction follows in frame 7202.
\<close>

theorem angle_above_360_after_frame_7201:
  "currentAngle (after_frames sample_libm sample_driver 7200) = 11796009 / 32768 \<and>
   angle_wrap (currentAngle (after_frames sample_libm sample_driver 7200)) = 11796009 / 32768 \<and>
   currentAngle (after_frames sample_libm sample_driver 7201) = 11797647 / 32768 \<and>
   \<not> currentAngle (after_frames sample_libm sample_driver 7201) < 360"
  by (simp add: after_frames_angle angle_run_7200 angle_run_7201 angle_wrap_def)

text \<open>
  Claim C5, amended.  A frame that starts with an angle \<open>a \<ge> 360\<close> first reduces it by
  exactly 360, once, which leaves a value \<open>w\<close> in \<open>[0, 360)\<close>; \<open>w\<close> is the value printed.
  The frame ends by adding \<open>0.05f\<close> in binary32: the stored angle \<open>a'\<close> is greater than
  \<open>w\<close>, lies within \<open>2\<^sup>-\<^sup>1\<^sup>5\<close> of \<open>w + 0.05\<close> and stays below 361; when it is 360 or more
  it is the next frame that reduces it, again by exactly 360.  This holds in every frame
  of the run.
\<close>

theorem angle_advances_and_wraps_once:
  "(let a = currentAngle (after_frames lm d n);
        w = angle_wrap a;
        a' = currentAngle (after_frames lm d (Suc n))
    in w = (if 360 \<le> a then a - 360 else a) \<and> 0 \<le> w \<and> w < 360 \<and>
       a' = fadd32 w (round32 (5 / 100)) \<and> w < a' \<and> \<bar>a' - (w + 5 / 100)\<bar> \<le> 1 / 32768 \<and>
       cout (after_frames lm d (Suc n)) = cout (after_frames lm d n) @ [OFloat w, OStr nl] \<and>
       a' < 361 \<and> angle_wrap a' = (if 360 \<le> a' then a' - 360 else a'))"
proof -
  let ?a = "currentAngle (after_frames lm d n)"
  let ?w = "angle_wrap ?a"
  let ?a' = "currentAngle (after_frames lm d (Suc n))"
  note w = angle_wrap_value [OF angle_inv_run [of lm d n]]
  have a': "?a' = fadd32 ?w (round32 (5 / 100))"
    by (simp add: after_frames_Suc frame_angle)
  have a'2: "?a' = fadd32 ?w (13421773 / 268435456)"
    unfolding a' angle_inc_val ..
  have lt: "?w < ?a'"
    unfolding a'2 by (rule angle_step(2) [OF w(2,3)])
  have err: "\<bar>?a' - (?w + 5 / 100)\<bar> \<le> 1 / 32768"
    unfolding a'2 by (rule angle_step(3) [OF w(2,3)])
  have ub: "?a' < 361"
    using err w(3) unfolding abs_le_iff by linarith
  have w': "angle_wrap ?a' = (if 360 \<le> ?a' then ?a' - 360 else ?a')"
    by (rule angle_wrap_value(1) [OF angle_inv_run])
  have co: "cout (after_frames lm d (Suc n)) = cout (after_frames lm d n) @ [OFloat ?w, OStr nl]"
    by (simp add: after_frames_Suc frame_angle)
  from w(1) w(2) w(3) a' lt err co ub w' show ?thesis
    unfolding Let_def by blast
qed

section \<open>The clear colour\<close>

lemma frame_color:
  "clear_color (frame lm s) =
     (channel_r lm (phase_i s), channel_g lm (phase_i s), channel_b lm (phase_i s), 1)"
  "phase_i (frame lm s) = fadd32 (phase_i s) (round32 (5 / 100000))"
  by (simp_all add: frame_def update_offset_def gl_defs Let_def split_def)

lemma phase_inc_val: "round32 (5 / 100000) = 13743895 / 274877906944"
  by (simp add: float_eval)

lemma phase_frame_eval: "phase_frame p = fadd32 p (13743895 / 274877906944)"
  unfolding phase_frame_def phase_inc_val ..

lemma fadd32_on_grid:
  assumes E: "- 126 \<le> E" and c: "0 \<le> c"
    and r: "of_int r - 1 / 2 < c / pow2 (E - 23)" "c / pow2 (E - 23) < of_int r + 1 / 2"
    and lo: "pow2 E \<le> of_int j * pow2 (E - 23)"
    and hi: "of_int j * pow2 (E - 23) + c < pow2 (E + 1)"
  shows "fadd32 (of_int j * pow2 (E - 23)) c = of_int (j + r) * pow2 (E - 23)"
proof -
  let ?u = "pow2 (E - 23)"
  let ?x = "of_int j * ?u + c"
  have u: "0 < ?u" by (rule pow2_pos)
  have p: "0 < pow2 E" by (rule pow2_pos)
  have x0: "?x \<noteq> 0" using lo p c by simp
  have "pow2 E \<le> \<bar>?x\<bar>" "\<bar>?x\<bar> < pow2 (E + 1)" using lo hi p c by simp_all
  then have e: "ulp_exp 24 (- 126) ?x = E - 23"
    using ulp_exp_eq [of E ?x "- 126" 24] E by simp
  have "?x / ?u = of_int j + c / ?u" using u by (simp add: add_divide_distrib)
  moreover have "rne (of_int j + c / ?u) = j + r"
    using r by (intro rne_near) simp_all
  ultimately have "fround 24 (- 126) ?x = of_int (j + r) * ?u"
    by (simp add: fround_ulp [OF x0] e)
  then show ?thesis by (simp add: fadd32_def round32_def)
qed

lemma phase_segment:
  assumes E: "- 126 \<le> E"
    and r: "of_int r - 1 / 2 < (13743895 / 274877906944) / pow2 (E - 23)"
           "(13743895 / 274877906944) / pow2 (E - 23) < of_int r + 1 / 2"
    and lo: "pow2 E \<le> of_int m * pow2 (E - 23)"
    and hi: "of_int (m + int n * r) * pow2 (E - 23) + 13743895 / 274877906944 < pow2 (E + 1)"
    and k: "k \<le> Suc n"
  shows "(phase_frame ^^ k) (of_int m * pow2 (E - 23)) = of_int (m + int k * r) * pow2 (E - 23)"
  using k
proof (induction k)
  case 0
  show ?case by simp
next
  case (Suc k)
  let ?u = "pow2 (E - 23)"
  have u: "0 < ?u" by (rule pow2_pos)
  have r0: "0 \<le> r"
  proof -
    have "0 < (13743895 / 274877906944) / ?u" using u by simp
    then have "(0::rat) < of_int r + 1 / 2" using r(2) by linarith
    then have "(of_int (- 1) :: rat) < of_int r" by simp
    then have "- 1 < r" unfolding of_int_less_iff .
    then show ?thesis by simp
  qed
  have kn: "int k * r \<le> int n * r" using Suc.prems r0 by (simp add: mult_right_mono)
  then have "m + int k * r \<le> m + int n * r" by simp
  then have "(of_int (m + int k * r) :: rat) \<le> of_int (m + int n * r)"
    unfolding of_int_le_iff .
  then have le: "of_int (m + int k * r) * ?u \<le> of_int (m + int n * r) * ?u"
    using u by (intro mult_right_mono) simp_all
  have "m \<le> m + int k * r" using r0 by simp
  then have "(of_int m :: rat) \<le> of_int (m + int k * r)"
    unfolding of_int_le_iff .
  then have ge: "of_int m * ?u \<le> of_int (m + int k * r) * ?u"
    using u by (intro mult_right_mono) simp_all
  have "fadd32 (of_int (m + int k * r) * ?u) (13743895 / 274877906944) =
        of_int ((m + int k * r) + r) * ?u"
    using lo hi le ge by (intro fadd32_on_grid [OF E _ r]) linarith+
  moreover have "(m + int k * r) + r = m + int (Suc k) * r" by (simp add: algebra_simps)
  ultimately show ?case using Suc by (simp add: phase_frame_eval)
qed

lemma pow2_m13: "pow2 (- 13) = 1 / 8192"
  by (simp add: pow2_def)

lemma phase_stall: "fadd32 1024 (13743895 / 274877906944) = 1024"
  by (simp add: float_eval)

lemma phase_step:
  assumes "phase_inv p"
  shows "phase_inv (fadd32 p (13743895 / 274877906944))"
    and "p \<le> fadd32 p (13743895 / 274877906944)"
    and "\<bar>fadd32 p (13743895 / 274877906944) - (p + 5 / 100000)\<bar> \<le> 1 / 16384"
proof -
  let ?c = "13743895 / 274877906944 :: rat"
  let ?x = "p + ?c"
  let ?a = "fadd32 p ?c"
  have p: "0 \<le> p" "p \<le> 1024" using assms by (simp_all add: phase_inv_def)
  have a: "?a = fround 24 (- 126) ?x" by (simp add: fadd32_def round32_def)
  have x0: "?x \<noteq> 0" using p by simp
  have xl: "pow2 (- 15) \<le> ?x" using p by (simp add: pow2_def)
  have "\<bar>?x\<bar> < pow2 (10 + 1)" using p by (simp add: pow2_def)
  then have u13: "ulp_exp 24 (- 126) ?x \<le> - 13"
    using ulp_exp_le [OF x0, of 10 "- 126" 24] by simp
  have up: "?a \<le> 1024 \<and> \<bar>?a - ?x\<bar> \<le> ?c"
  proof (cases "?x < 1024")
    case True
    have "\<bar>?x\<bar> < pow2 (9 + 1)" using p True by (simp add: pow2_def)
    then have u14: "ulp_exp 24 (- 126) ?x \<le> - 14"
      using ulp_exp_le [OF x0, of 9 "- 126" 24] by simp
    have "pow2 (ulp_exp 24 (- 126) ?x) \<le> pow2 (- 14)" using u14 by (rule pow2_mono)
    then have "\<bar>?a - ?x\<bar> \<le> 1 / 32768"
      using fround_err [OF x0, of 24 "- 126"] by (simp add: a pow2_def)
    moreover have "?a \<le> of_int 1024 * pow2 0"
      unfolding a using u13 True by (intro fround_le_grid [OF x0]) (simp_all add: pow2_def)
    ultimately show ?thesis by (simp add: pow2_def)
  next
    case False
    have "pow2 10 \<le> \<bar>?x\<bar>" "\<bar>?x\<bar> < pow2 (10 + 1)" using False p by (simp_all add: pow2_def)
    then have e: "ulp_exp 24 (- 126) ?x = - 13"
      using ulp_exp_eq [of 10 ?x "- 126" 24] by simp
    have "rne (?x / pow2 (- 13)) = 8388608"
      using False p by (intro rne_near) (simp_all add: pow2_m13)
    then have "?a = 1024"
      unfolding a by (simp add: fround_ulp [OF x0] e pow2_m13)
    then show ?thesis using False p by simp
  qed
  show "\<bar>?a - (p + 5 / 100000)\<bar> \<le> 1 / 16384"
    using up unfolding abs_le_iff by linarith
  show mono: "p \<le> ?a"
  proof (cases "p = 0")
    case True
    have "of_int 0 * pow2 (ulp_exp 24 (- 126) ?x) \<le> fround 24 (- 126) ?x"
      using p by (intro fround_ge_grid [OF x0]) simp_all
    then have "0 \<le> ?a" unfolding a by simp
    then show ?thesis using True by simp
  next
    case False
    then obtain y where y: "pow2 (- 15) \<le> y" "p = round32 y"
      using assms by (auto simp add: phase_inv_def)
    have y0: "0 < y" using y(1) pow2_pos [of "- 15"] by linarith
    then have yn: "y \<noteq> 0" by simp
    let ?Ey = "ilog2 y"
    have Ey: "- 15 \<le> ?Ey" using ilog2_ge [OF y0 y(1)] .
    have yb: "pow2 ?Ey \<le> y" "y < pow2 (?Ey + 1)" using ilog2_bounds [OF y0] by simp_all
    have ey: "ulp_exp 24 (- 126) y = ?Ey - 23"
      using Ey y0 by (simp add: ulp_exp_def)
    have pf: "p = fround 24 (- 126) y" using y(2) by (simp add: round32_def)
    have plo: "of_int 1 * pow2 ?Ey \<le> p"
      unfolding pf using yb by (intro fround_ge_grid [OF yn]) (simp_all add: ey)
    have phi: "p \<le> of_int 1 * pow2 (?Ey + 1)"
      unfolding pf using yb by (intro fround_le_grid [OF yn]) (simp_all add: ey)
    have xp: "0 < ?x" using p by simp
    let ?Ex = "ilog2 ?x"
    have "pow2 ?Ey \<le> ?x" using plo by simp
    then have Exy: "?Ey \<le> ?Ex" using ilog2_ge [OF xp] by simp
    have xb: "pow2 ?Ex \<le> ?x" using ilog2_bounds [OF xp] by simp
    have ex: "ulp_exp 24 (- 126) ?x = ?Ex - 23"
      using Exy Ey xp by (simp add: ulp_exp_def)
    show ?thesis
    proof (cases "?Ex = ?Ey")
      case True
      define n where "n = rne (y / pow2 (?Ey - 23))"
      have pg0: "p = of_int n * pow2 (?Ey - 23)"
        unfolding n_def pf by (simp add: fround_ulp [OF yn] ey)
      have pg: "p = of_int n * pow2 (?Ex - 23)"
        by (simp only: True) (rule pg0)
      have "of_int n * pow2 (?Ex - 23) \<le> fround 24 (- 126) ?x"
      proof (rule fround_ge_grid [OF x0])
        show "ulp_exp 24 (- 126) ?x \<le> ?Ex - 23" by (simp only: ex order_refl)
        show "of_int n * pow2 (?Ex - 23) \<le> ?x" unfolding pg [symmetric] by simp
      qed
      then show ?thesis unfolding a pg [symmetric] .
    next
      case False
      then have "?Ey + 1 \<le> ?Ex" using Exy by simp
      then have "pow2 (?Ey + 1) \<le> pow2 ?Ex" by (rule pow2_mono)
      moreover have "of_int 1 * pow2 ?Ex \<le> fround 24 (- 126) ?x"
        using xb by (intro fround_ge_grid [OF x0]) (simp_all add: ex)
      ultimately show ?thesis using phi by (simp add: a)
    qed
  qed
  show "phase_inv ?a"
    unfolding phase_inv_def
  proof (intro conjI)
    show "0 \<le> ?a" using mono p by linarith
    show "?a \<le> 1024" using up by simp
    have "?a = round32 ?x" by (simp add: fadd32_def)
    then show "?a = 0 \<or> (\<exists>y. pow2 (- 15) \<le> y \<and> ?a = round32 y)" using xl by blast
  qed
qed

lemma phase_run_79: "(phase_frame ^^ 79) 0 = 4241277 / 1073741824"
  by (simp add: funpow_num phase_frame_eval float_eval)

lemma phase_segment_m8: "(phase_frame ^^ 77) (4241277 / 1073741824) = 1046897 / 134217728"
  using phase_segment [where E = "-8" and r = 107374 and m = 8482554 and n = 76 and k = 77]
  by (simp add: pow2_def)

lemma phase_run_156: "(phase_frame ^^ 156) 0 = 1046897 / 134217728"
  using funpow_add_apply [where f = phase_frame and m = 77 and n = 79 and x = 0]
  by (simp add: phase_run_79 phase_segment_m8)

lemma phase_run_157: "(phase_frame ^^ 157) 0 = 8428863 / 1073741824"
proof -
  have "phase_frame (1046897 / 134217728) = 8428863 / 1073741824"
    by (simp add: phase_frame_eval float_eval)
  then show ?thesis
    using funpow_add_apply [where f = phase_frame and m = 1 and n = 156 and x = 0]
    by (simp add: phase_run_156)
qed

lemma phase_segment_m7: "(phase_frame ^^ 155) (8428863 / 1073741824) = 4187587 / 268435456"
  using phase_segment [where E = "-7" and r = 53687 and m = 8428863 and n = 154 and k = 155]
  by (simp add: pow2_def)

lemma phase_run_312: "(phase_frame ^^ 312) 0 = 4187587 / 268435456"
  using funpow_add_apply [where f = phase_frame and m = 155 and n = 157 and x = 0]
  by (simp add: phase_run_157 phase_segment_m7)

lemma phase_run_313: "(phase_frame ^^ 313) 0 = 4201009 / 268435456"
proof -
  have "phase_frame (4187587 / 268435456) = 4201009 / 268435456"
    by (simp add: phase_frame_eval float_eval)
  then show ?thesis
    using funpow_add_apply [where f = phase_frame and m = 1 and n = 312 and x = 0]
    by (simp add: phase_run_312)
qed

lemma phase_segment_m6: "(phase_frame ^^ 311) (4201009 / 268435456) = 8375251 / 268435456"
  using phase_segment [where E = "-6" and r = 26844 and m = 8402018 and n = 310 and k = 311]
  by (simp add: pow2_def)

lemma phase_run_624: "(phase_frame ^^ 624) 0 = 8375251 / 268435456"
  using funpow_add_apply [where f = phase_frame and m = 311 and n = 313 and x = 0]
  by (simp add: phase_run_313 phase_segment_m6)

lemma phase_run_625: "(phase_frame ^^ 625) 0 = 8388673 / 268435456"
proof -
  have "phase_frame (8375251 / 268435456) = 8388673 / 268435456"
    by (simp add: phase_frame_eval float_eval)
  then show ?thesis
    using funpow_add_apply [where f = phase_frame and m = 1 and n = 624 and x = 0]
    by (simp add: phase_run_624)
qed

lemma phase_segment_m5: "(phase_frame ^^ 624) (8388673 / 268435456) = 16764001 / 268435456"
  using phase_segment [where E = "-5" and r = 13422 and m = 8388673 and n = 623 and k = 624]
  by (simp add: pow2_def)

lemma phase_run_1249: "(phase_frame ^^ 1249) 0 = 16764001 / 268435456"
  using funpow_add_apply [where f = phase_frame and m = 624 and n = 625 and x = 0]
  by (simp add: phase_run_625 phase_segment_m5)

lemma phase_run_1250: "(phase_frame ^^ 1250) 0 = 8388711 / 134217728"
proof -
  have "phase_frame (16764001 / 268435456) = 8388711 / 134217728"
    by (simp add: phase_frame_eval float_eval)
  then show ?thesis
    using funpow_add_apply [where f = phase_frame and m = 1 and n = 1249 and x = 0]
    by (simp add: phase_run_1249)
qed

lemma phase_segment_m4: "(phase_frame ^^ 1249) (8388711 / 134217728) = 8385375 / 67108864"
  using phase_segment [where E = "-4" and r = 6711 and m = 8388711 and n = 1248 and k = 1249]
  by (simp add: pow2_def)

lemma phase_run_2499: "(phase_frame ^^ 2499) 0 = 8385375 / 67108864"
  using funpow_add_apply [where f = phase_frame and m = 1249 and n = 1250 and x = 0]
  by (simp add: phase_run_1250 phase_segment_m4)

lemma phase_run_2500: "(phase_frame ^^ 2500) 0 = 4194365 / 33554432"
proof -
  have "phase_frame (8385375 / 67108864) = 4194365 / 33554432"
    by (simp add: phase_frame_eval float_eval)
  then show ?thesis
    using funpow_add_apply [where f = phase_frame and m = 1 and n = 2499 and x = 0]
    by (simp add: phase_run_2499)
qed

lemma phase_segment_m3: "(phase_frame ^^ 2500) (4194365 / 33554432) = 8388115 / 33554432"
  using phase_segment [where E = "-3" and r = 3355 and m = 8388730 and n = 2499 and k = 2500]
  by (simp add: pow2_def)

lemma phase_run_5000: "(phase_frame ^^ 5000) 0 = 8388115 / 33554432"
  using funpow_add_apply [where f = phase_frame and m = 2500 and n = 2500 and x = 0]
  by (simp add: phase_run_2500 phase_segment_m3)

lemma phase_run_5001: "(phase_frame ^^ 5001) 0 = 8389793 / 33554432"
proof -
  have "phase_frame (8388115 / 33554432) = 8389793 / 33554432"
    by (simp add: phase_frame_eval float_eval)
  then show ?thesis
    using funpow_add_apply [where f = phase_frame and m = 1 and n = 5000 and x = 0]
    by (simp add: phase_run_5000)
qed

lemma phase_segment_m2: "(phase_frame ^^ 4998) (8389793 / 33554432) = 16776437 / 33554432"
  using phase_segment [where E = "-2" and r = 1678 and m = 8389793 and n = 4997 and k = 4998]
  by (simp add: pow2_def)

lemma phase_run_9999: "(phase_frame ^^ 9999) 0 = 16776437 / 33554432"
  using funpow_add_apply [where f = phase_frame and m = 4998 and n = 5001 and x = 0]
  by (simp add: phase_run_5001 phase_segment_m2)

lemma phase_run_10000: "(phase_frame ^^ 10000) 0 = 8389057 / 16777216"
proof -
  have "phase_frame (16776437 / 33554432) = 8389057 / 16777216"
    by (simp add: phase_frame_eval float_eval)
  then show ?thesis
    using funpow_add_apply [where f = phase_frame and m = 1 and n = 9999 and x = 0]
    by (simp add: phase_run_9999)
qed

lemma phase_segment_m1: "(phase_frame ^^ 9997) (8389057 / 16777216) = 4194135 / 4194304"
  using phase_segment [where E = "-1" and r = 839 and m = 8389057 and n = 9996 and k = 9997]
  by (simp add: pow2_def)

lemma phase_run_19997: "(phase_frame ^^ 19997) 0 = 4194135 / 4194304"
  using funpow_add_apply [where f = phase_frame and m = 9997 and n = 10000 and x = 0]
  by (simp add: phase_run_10000 phase_segment_m1)

lemma phase_run_19998: "(phase_frame ^^ 19998) 0 = 8388689 / 8388608"
proof -
  have "phase_frame (4194135 / 4194304) = 8388689 / 8388608"
    by (simp add: phase_frame_eval float_eval)
  then show ?thesis
    using funpow_add_apply [where f = phase_frame and m = 1 and n = 19997 and x = 0]
    by (simp add: phase_run_19997)
qed

lemma phase_segment_0: "(phase_frame ^^ 20020) (8388689 / 8388608) = 16777069 / 8388608"
  using phase_segment [where E = "0" and r = 419 and m = 8388689 and n = 20019 and k = 20020]
  by (simp add: pow2_def)

lemma phase_run_40018: "(phase_frame ^^ 40018) 0 = 16777069 / 8388608"
  using funpow_add_apply [where f = phase_frame and m = 20020 and n = 19998 and x = 0]
  by (simp add: phase_run_19998 phase_segment_0)

lemma phase_run_40019: "(phase_frame ^^ 40019) 0 = 1048593 / 524288"
proof -
  have "phase_frame (16777069 / 8388608) = 1048593 / 524288"
    by (simp add: phase_frame_eval float_eval)
  then show ?thesis
    using funpow_add_apply [where f = phase_frame and m = 1 and n = 40018 and x = 0]
    by (simp add: phase_run_40018)
qed

lemma phase_segment_1: "(phase_frame ^^ 39945) (1048593 / 524288) = 8388597 / 2097152"
  using phase_segment [where E = "1" and r = 210 and m = 8388744 and n = 39944 and k = 39945]
  by (simp add: pow2_def)

lemma phase_run_79964: "(phase_frame ^^ 79964) 0 = 8388597 / 2097152"
  using funpow_add_apply [where f = phase_frame and m = 39945 and n = 40019 and x = 0]
  by (simp add: phase_run_40019 phase_segment_1)

lemma phase_run_79965: "(phase_frame ^^ 79965) 0 = 4194351 / 1048576"
proof -
  have "phase_frame (8388597 / 2097152) = 4194351 / 1048576"
    by (simp add: phase_frame_eval float_eval)
  then show ?thesis
    using funpow_add_apply [where f = phase_frame and m = 1 and n = 79964 and x = 0]
    by (simp add: phase_run_79964)
qed

lemma phase_segment_2: "(phase_frame ^^ 79890) (4194351 / 1048576) = 262143 / 32768"
  using phase_segment [where E = "2" and r = 105 and m = 8388702 and n = 79889 and k = 79890]
  by (simp add: pow2_def)

lemma phase_run_159855: "(phase_frame ^^ 159855) 0 = 262143 / 32768"
  using funpow_add_apply [where f = phase_frame and m = 79890 and n = 79965 and x = 0]
  by (simp add: phase_run_79965 phase_segment_2)

lemma phase_run_159856: "(phase_frame ^^ 159856) 0 = 2097157 / 262144"
proof -
  have "phase_frame (262143 / 32768) = 2097157 / 262144"
    by (simp add: phase_frame_eval float_eval)
  then show ?thesis
    using funpow_add_apply [where f = phase_frame and m = 1 and n = 159855 and x = 0]
    by (simp add: phase_run_159855)
qed

lemma phase_segment_3: "(phase_frame ^^ 161318) (2097157 / 262144) = 4194291 / 262144"
  using phase_segment [where E = "3" and r = 52 and m = 8388628 and n = 161317 and k = 161318]
  by (simp add: pow2_def)

lemma phase_run_321174: "(phase_frame ^^ 321174) 0 = 4194291 / 262144"
  using funpow_add_apply [where f = phase_frame and m = 161318 and n = 159856 and x = 0]
  by (simp add: phase_run_159856 phase_segment_3)

lemma phase_run_321175: "(phase_frame ^^ 321175) 0 = 16"
proof -
  have "phase_frame (4194291 / 262144) = 16"
    by (simp add: phase_frame_eval float_eval)
  then show ?thesis
    using funpow_add_apply [where f = phase_frame and m = 1 and n = 321174 and x = 0]
    by (simp add: phase_run_321174)
qed

lemma phase_segment_4: "(phase_frame ^^ 322638) (16) = 4194299 / 131072"
  using phase_segment [where E = "4" and r = 26 and m = 8388608 and n = 322637 and k = 322638]
  by (simp add: pow2_def)

lemma phase_run_643813: "(phase_frame ^^ 643813) 0 = 4194299 / 131072"
  using funpow_add_apply [where f = phase_frame and m = 322638 and n = 321175 and x = 0]
  by (simp add: phase_run_321175 phase_segment_4)

lemma phase_run_643814: "(phase_frame ^^ 643814) 0 = 8388611 / 262144"
proof -
  have "phase_frame (4194299 / 131072) = 8388611 / 262144"
    by (simp add: phase_frame_eval float_eval)
  then show ?thesis
    using funpow_add_apply [where f = phase_frame and m = 1 and n = 643813 and x = 0]
    by (simp add: phase_run_643813)
qed

lemma phase_segment_5: "(phase_frame ^^ 645277) (8388611 / 262144) = 4194303 / 65536"
  using phase_segment [where E = "5" and r = 13 and m = 8388611 and n = 645276 and k = 645277]
  by (simp add: pow2_def)

lemma phase_run_1289091: "(phase_frame ^^ 1289091) 0 = 4194303 / 65536"
  using funpow_add_apply [where f = phase_frame and m = 645277 and n = 643814 and x = 0]
  by (simp add: phase_run_643814 phase_segment_5)

lemma phase_run_1289092: "(phase_frame ^^ 1289092) 0 = 8388613 / 131072"
proof -
  have "phase_frame (4194303 / 65536) = 8388613 / 131072"
    by (simp add: phase_frame_eval float_eval)
  then show ?thesis
    using funpow_add_apply [where f = phase_frame and m = 1 and n = 1289091 and x = 0]
    by (simp add: phase_run_1289091)
qed

lemma phase_segment_6: "(phase_frame ^^ 1198371) (8388613 / 131072) = 8388605 / 65536"
  using phase_segment [where E = "6" and r = 7 and m = 8388613 and n = 1198370 and k = 1198371]
  by (simp add: pow2_def)

lemma phase_run_2487463: "(phase_frame ^^ 2487463) 0 = 8388605 / 65536"
  using funpow_add_apply [where f = phase_frame and m = 1198371 and n = 1289092 and x = 0]
  by (simp add: phase_run_1289092 phase_segment_6)

lemma phase_run_2487464: "(phase_frame ^^ 2487464) 0 = 128"
proof -
  have "phase_frame (8388605 / 65536) = 128"
    by (simp add: phase_frame_eval float_eval)
  then show ?thesis
    using funpow_add_apply [where f = phase_frame and m = 1 and n = 2487463 and x = 0]
    by (simp add: phase_run_2487463)
qed

lemma phase_segment_7: "(phase_frame ^^ 2796202) (128) = 8388607 / 32768"
  using phase_segment [where E = "7" and r = 3 and m = 8388608 and n = 2796201 and k = 2796202]
  by (simp add: pow2_def)

lemma phase_run_5283666: "(phase_frame ^^ 5283666) 0 = 8388607 / 32768"
  using funpow_add_apply [where f = phase_frame and m = 2796202 and n = 2487464 and x = 0]
  by (simp add: phase_run_2487464 phase_segment_7)

lemma phase_run_5283667: "(phase_frame ^^ 5283667) 0 = 8388609 / 32768"
proof -
  have "phase_frame (8388607 / 32768) = 8388609 / 32768"
    by (simp add: phase_frame_eval float_eval)
  then show ?thesis
    using funpow_add_apply [where f = phase_frame and m = 1 and n = 5283666 and x = 0]
    by (simp add: phase_run_5283666)
qed

lemma phase_segment_8: "(phase_frame ^^ 4194303) (8388609 / 32768) = 16777215 / 32768"
  using phase_segment [where E = "8" and r = 2 and m = 8388609 and n = 4194302 and k = 4194303]
  by (simp add: pow2_def)

lemma phase_run_9477970: "(phase_frame ^^ 9477970) 0 = 16777215 / 32768"
  using funpow_add_apply [where f = phase_frame and m = 4194303 and n = 5283667 and x = 0]
  by (simp add: phase_run_5283667 phase_segment_8)

lemma phase_run_9477971: "(phase_frame ^^ 9477971) 0 = 512"
proof -
  have "phase_frame (16777215 / 32768) = 512"
    by (simp add: phase_frame_eval float_eval)
  then show ?thesis
    using funpow_add_apply [where f = phase_frame and m = 1 and n = 9477970 and x = 0]
    by (simp add: phase_run_9477970)
qed

lemma phase_segment_9: "(phase_frame ^^ 8388608) (512) = 1024"
  using phase_segment [where E = "9" and r = 1 and m = 8388608 and n = 8388607 and k = 8388608]
  by (simp add: pow2_def)

lemma phase_run_17866579: "(phase_frame ^^ 17866579) 0 = 1024"
  using funpow_add_apply [where f = phase_frame and m = 8388608 and n = 9477971 and x = 0]
  by (simp add: phase_run_9477971 phase_segment_9)

lemma phase_run_17866580: "(phase_frame ^^ 17866580) 0 = 1024"
proof -
  have "phase_frame 1024 = 1024"
    by (simp add: phase_frame_eval float_eval)
  then show ?thesis
    using funpow_add_apply [where f = phase_frame and m = 1 and n = 17866579 and x = 0]
    by (simp add: phase_run_17866579)
qed

lemmas double_eval = round64_def fadd64_def fsub64_def

lemma M_PI_val: "M_PI = 884279719003555 / 281474976710656"
  by (simp add: M_PI_def double_eval float_eval)

lemma phase_shift_val:
  "round64 (round64 (2 * M_PI) / 3) = 4716158501352293 / 2251799813685248"
  by (simp add: M_PI_val double_eval float_eval)

lemma round64_near:
  assumes "\<bar>x\<bar> < 2048"
  shows "\<bar>round64 x - x\<bar> \<le> 1 / 2 ^ 43"
proof (cases "x = 0")
  case True
  then show ?thesis by (simp add: round64_def fround_def)
next
  case False
  have "\<bar>x\<bar> < pow2 (10 + 1)" using assms by (simp add: pow2_def)
  then have "ulp_exp 53 (- 1022) x \<le> - 42"
    using ulp_exp_le [OF False, of 10 "- 1022" 53] by simp
  then have "pow2 (ulp_exp 53 (- 1022) x) \<le> pow2 (- 42)" by (rule pow2_mono)
  then show ?thesis
    using fround_err [OF False, of 53 "- 1022"] by (simp add: round64_def pow2_def)
qed

lemma sine_arguments:
  assumes "0 \<le> p" "p \<le> 1024"
  shows "\<bar>fadd64 p (round64 (round64 (2 * M_PI) / 3)) - (p + 2 * M_PI / 3)\<bar> \<le> 1 / 2 ^ 42"
    and "\<bar>fsub64 p (round64 (round64 (2 * M_PI) / 3)) - (p - 2 * M_PI / 3)\<bar> \<le> 1 / 2 ^ 42"
proof -
  let ?K = "4716158501352293 / 2251799813685248 :: rat"
  have k: "\<bar>?K - 2 * M_PI / 3\<bar> \<le> 1 / 2 ^ 52" unfolding M_PI_val by simp
  have "\<bar>round64 (p + ?K) - (p + ?K)\<bar> \<le> 1 / 2 ^ 43"
    using assms by (intro round64_near) (simp add: abs_less_iff)
  then show "\<bar>fadd64 p (round64 (round64 (2 * M_PI) / 3)) - (p + 2 * M_PI / 3)\<bar> \<le> 1 / 2 ^ 42"
    unfolding phase_shift_val fadd64_def using k unfolding abs_le_iff by simp
  have "\<bar>round64 (p - ?K) - (p - ?K)\<bar> \<le> 1 / 2 ^ 43"
    using assms by (intro round64_near) (simp add: abs_less_iff)
  then show "\<bar>fsub64 p (round64 (round64 (2 * M_PI) / 3)) - (p - 2 * M_PI / 3)\<bar> \<le> 1 / 2 ^ 42"
    unfolding phase_shift_val fsub64_def using k unfolding abs_le_iff by simp
qed

lemma after_frames_phase: "phase_i (after_frames lm d n) = (phase_frame ^^ n) 0"
proof (induction n)
  case 0
  show ?case by (simp add: after_frames_def setup_animation)
next
  case (Suc n)
  then show ?case by (simp add: after_frames_Suc frame_color phase_frame_def)
qed

lemma phase_inv_run: "phase_inv (phase_i (after_frames lm d n))"
proof (induction n)
  case 0
  show ?case by (simp add: after_frames_def setup_animation phase_inv_def)
next
  case (Suc n)
  show ?case
    unfolding after_frames_Suc frame_color phase_inc_val
    using Suc by (rule phase_step(1))
qed

text \<open>
  Claim C7 says that the phase advances by a fixed increment each frame.  The increment
  is added in binary32, where it is rounded away once the phase has grown to 1024: this
  is the phase after 17866579 frames of the run, and frame 17866580 leaves it there,
  whereas the first frame takes it from 0 to \<open>0.00005f\<close>.
\<close>

theorem phase_stops_advancing_at_1024:
  "phase_i (after_frames sample_libm sample_driver 0) = 0 \<and>
   phase_i (after_frames sample_libm sample_driver 1) = 13743895 / 274877906944 \<and>
   phase_i (after_frames sample_libm sample_driver 17866579) = 1024 \<and>
   phase_i (after_frames sample_libm sample_driver 17866580) = 1024"
proof -
  have "(phase_frame ^^ 1) 0 = 13743895 / 274877906944"
    by (simp add: phase_frame_eval float_eval)
  then show ?thesis
    by (simp add: after_frames_phase phase_run_17866579 phase_run_17866580)
qed

text \<open>
  Claim C7, amended.  In every frame of the run the phase \<open>i\<close> lies in \<open>[0, 1024]\<close> and the
  frame clears to \<open>((float)|sin(a\<^sub>r)|, |sinf(i)|, (float)|sin(a\<^sub>b)|)\<close>, where the
  double-precision arguments \<open>a\<^sub>r\<close> and \<open>a\<^sub>b\<close> are within \<open>2\<^sup>-\<^sup>4\<^sup>2\<close> of \<open>i + 2 M_PI / 3\<close> and
  \<open>i - 2 M_PI / 3\<close>.  For a library sine with values in \<open>[-1, 1]\<close> each channel lies in
  \<open>[0, 1]\<close>, for every \<open>i\<close>.  The frame then adds \<open>0.00005f\<close> to the phase in binary32: the
  phase does not decrease, the sum is within \<open>2\<^sup>-\<^sup>1\<^sup>4\<close> of \<open>i + 0.00005\<close>, and at 1024 the
  phase stays where it is.
\<close>

theorem clear_color_channels_in_unit_interval:
  assumes "\<forall>x. \<bar>std_sin lm x\<bar> \<le> 1" and "\<forall>x. \<bar>std_sinf lm x\<bar> \<le> 1"
  shows "(let p = phase_i (after_frames lm d n);
              ar = fadd64 p (round64 (round64 (2 * M_PI) / 3));
              ab = fsub64 p (round64 (round64 (2 * M_PI) / 3));
              p' = phase_i (after_frames lm d (Suc n))
          in clear_color (after_frames lm d (Suc n)) =
               (round32 \<bar>std_sin lm ar\<bar>, round32 \<bar>std_sinf lm p\<bar>, round32 \<bar>std_sin lm ab\<bar>, 1) \<and>
             \<bar>ar - (p + 2 * M_PI / 3)\<bar> \<le> 1 / 2 ^ 42 \<and>
             \<bar>ab - (p - 2 * M_PI / 3)\<bar> \<le> 1 / 2 ^ 42 \<and>
             p' = fadd32 p (round32 (5 / 100000)) \<and>
             0 \<le> p \<and> p \<le> p' \<and> p' \<le> 1024 \<and>
             \<bar>p' - (p + 5 / 100000)\<bar> \<le> 1 / 16384) \<and>
         fadd32 1024 (round32 (5 / 100000)) = 1024 \<and>
         0 \<le> channel_r lm i \<and> channel_r lm i \<le> 1 \<and>
         0 \<le> channel_g lm i \<and> channel_g lm i \<le> 1 \<and>
         0 \<le> channel_b lm i \<and> channel_b lm i \<le> 1 \<and>
         clear_color (frame lm s) =
           (round32 \<bar>std_sin lm (fadd64 (phase_i s) (round64 (round64 (2 * M_PI) / 3)))\<bar>,
            round32 \<bar>std_sinf lm (phase_i s)\<bar>,
            round32 \<bar>std_sin lm (fsub64 (phase_i s) (round64 (round64 (2 * M_PI) / 3)))\<bar>,
            1) \<and>
         phase_i (frame lm s) = fadd32 (phase_i s) (round32 (5 / 100000))"
proof -
  let ?p = "phase_i (after_frames lm d n)"
  let ?K = "round64 (round64 (2 * M_PI) / 3)"
  let ?p' = "phase_i (after_frames lm d (Suc n))"
  have inv: "phase_inv ?p" by (rule phase_inv_run)
  then have p: "0 \<le> ?p" "?p \<le> 1024" by (simp_all add: phase_inv_def)
  have p': "?p' = fadd32 ?p (round32 (5 / 100000))"
    by (simp add: after_frames_Suc frame_color)
  have p'2: "?p' = fadd32 ?p (13743895 / 274877906944)"
    unfolding p' phase_inc_val ..
  have mono: "?p \<le> ?p'"
    unfolding p'2 by (rule phase_step(2) [OF inv])
  have err: "\<bar>?p' - (?p + 5 / 100000)\<bar> \<le> 1 / 16384"
    unfolding p'2 by (rule phase_step(3) [OF inv])
  have ub: "?p' \<le> 1024"
    using phase_inv_run [of lm d "Suc n"] by (simp add: phase_inv_def)
  have col: "clear_color (after_frames lm d (Suc n)) =
               (round32 \<bar>std_sin lm (fadd64 ?p ?K)\<bar>, round32 \<bar>std_sinf lm ?p\<bar>,
                round32 \<bar>std_sin lm (fsub64 ?p ?K)\<bar>, 1)"
    by (simp add: after_frames_Suc frame_color channel_r_def channel_g_def channel_b_def)
  note args = sine_arguments [OF p]
  have run: "(let p = phase_i (after_frames lm d n);
              ar = fadd64 p (round64 (round64 (2 * M_PI) / 3));
              ab = fsub64 p (round64 (round64 (2 * M_PI) / 3));
              p' = phase_i (after_frames lm d (Suc n))
          in clear_color (after_frames lm d (Suc n)) =
               (round32 \<bar>std_sin lm ar\<bar>, round32 \<bar>std_sinf lm p\<bar>, round32 \<bar>std_sin lm ab\<bar>, 1) \<and>
             \<bar>ar - (p + 2 * M_PI / 3)\<bar> \<le> 1 / 2 ^ 42 \<and>
             \<bar>ab - (p - 2 * M_PI / 3)\<bar> \<le> 1 / 2 ^ 42 \<and>
             p' = fadd32 p (round32 (5 / 100000)) \<and>
             0 \<le> p \<and> p \<le> p' \<and> p' \<le> 1024 \<and>
             \<bar>p' - (p + 5 / 100000)\<bar> \<le> 1 / 16384)"
    unfolding Let_def using col args p' p(1) mono ub err by blast
  have stall: "fadd32 1024 (round32 (5 / 100000)) = 1024"
    unfolding phase_inc_val by (rule phase_stall)
  have u: "0 \<le> round32 \<bar>y\<bar> \<and> round32 \<bar>y\<bar> \<le> 1" if "\<bar>y\<bar> \<le> 1" for y
    using that by (intro round32_unit_interval) simp_all
  have r: "0 \<le> channel_r lm i \<and> channel_r lm i \<le> 1"
    unfolding channel_r_def using assms(1) by (intro u) simp
  have g: "0 \<le> channel_g lm i \<and> channel_g lm i \<le> 1"
    unfolding channel_g_def using assms(2) by (intro u) simp
  have b: "0 \<le> channel_b lm i \<and> channel_b lm i \<le> 1"
    unfolding channel_b_def using assms(1) by (intro u) simp
  have gen: "clear_color (frame lm s) =
           (round32 \<bar>std_sin lm (fadd64 (phase_i s) (round64 (round64 (2 * M_PI) / 3)))\<bar>,
            round32 \<bar>std_sinf lm (phase_i s)\<bar>,
            round32 \<bar>std_sin lm (fsub64 (phase_i s) (round64 (round64 (2 * M_PI) / 3)))\<bar>,
            1) \<and>
         phase_i (frame lm s) = fadd32 (phase_i s) (round32 (5 / 100000))"
    by (simp add: frame_color channel_r_def channel_g_def channel_b_def)
  from run stall r g b gen show ?thesis by blast
qed

theorem clear_color_channels_in_unit_interval_witness:
  "(\<forall>x. \<bar>std_sin sample_libm x\<bar> \<le> 1) \<and> (\<forall>x. \<bar>std_sinf sample_libm x\<bar> \<le> 1) \<and>
   phase_i (after_frames sample_libm sample_driver 1) = 13743895 / 274877906944 \<and>
   fadd64 (13743895 / 274877906944) (round64 (round64 (2 * M_PI) / 3)) =
     4716271091340133 / 2251799813685248 \<and>
   fsub64 (13743895 / 274877906944) (round64 (round64 (2 * M_PI) / 3)) =
     - (4716045911364453 / 2251799813685248) \<and>
   clear_color (after_frames sample_libm sample_driver 2) =
     (1419437 / 2097152, 1717901 / 34359738368, 1419415 / 2097152, 1) \<and>
   phase_i (after_frames sample_libm sample_driver 1)
     \<le> phase_i (after_frames sample_libm sample_driver 2)"
proof -
  have bd: "\<bar>x / (1 + \<bar>x\<bar>)\<bar> \<le> 1" for x :: rat
    by (simp add: abs_divide field_simps)
  have h1: "\<forall>x. \<bar>std_sin sample_libm x\<bar> \<le> 1" and h2: "\<forall>x. \<bar>std_sinf sample_libm x\<bar> \<le> 1"
    using bd by (simp_all add: sample_libm_def)
  have p1: "phase_i (after_frames sample_libm sample_driver 1) = 13743895 / 274877906944"
    by (simp add: after_frames_phase phase_frame_eval float_eval)
  have ar: "fadd64 (13743895 / 274877906944) (round64 (round64 (2 * M_PI) / 3)) =
              4716271091340133 / 2251799813685248"
    unfolding phase_shift_val by (simp add: double_eval float_eval)
  have ab: "fsub64 (13743895 / 274877906944) (round64 (round64 (2 * M_PI) / 3)) =
              - (4716045911364453 / 2251799813685248)"
    unfolding phase_shift_val by (simp add: double_eval float_eval)
  have e2: "Suc 1 = 2" by simp
  note t = clear_color_channels_in_unit_interval
             [OF h1 h2, where d = sample_driver and n = 1 and i = 0 and s = init_state]
  from t have "clear_color (after_frames sample_libm sample_driver 2) =
      (round32 \<bar>std_sin sample_libm (4716271091340133 / 2251799813685248)\<bar>,
       round32 \<bar>std_sinf sample_libm (13743895 / 274877906944)\<bar>,
       round32 \<bar>std_sin sample_libm (- (4716045911364453 / 2251799813685248))\<bar>, 1)"
    unfolding Let_def e2 p1 ar ab by blast
  then have c2: "clear_color (after_frames sample_libm sample_driver 2) =
      (1419437 / 2097152, 1717901 / 34359738368, 1419415 / 2097152, 1)"
    by (simp add: sample_libm_def float_eval)
  from t have m: "phase_i (after_frames sample_libm sample_driver 1)
                    \<le> phase_i (after_frames sample_libm sample_driver 2)"
    unfolding Let_def e2 by blast
  from h1 h2 p1 ar ab c2 m show ?thesis by blast
qed

end
